theory Spec2Isabelle
  imports Main
begin

section \<open>Data model (models/model.py)\<close>

text \<open>
  The dataclasses of \<^verbatim>\<open>models/model.py\<close>. \<^verbatim>\<open>Project\<close> refers to itself through
  \<^verbatim>\<open>child_projects\<close>, so it is a datatype with the dataclass's five fields as selectors; the
  other dataclasses are records. All five fields of \<^verbatim>\<open>Project\<close> are required: none has a
  default, and there is no field called \<^verbatim>\<open>file_name\<close>.
\<close>

datatype Language =
  CSharp | FSharp | VB | Python | Java | JavaScript | CSProject | VBProject | Empty

record CodeFile =
  file_name :: string
  full_path :: string
  language :: Language

datatype Project =
  Project (full_path: string) (project_folder_path: string) (name: string)
    (code_files: "CodeFile list") (child_projects: "Project list")

record Solution =
  full_path :: string
  solution_name :: string
  projects :: "Project list"

record SolutionSet =
  start_path :: string
  solutions :: "Solution list"

section \<open>Exceptions\<close>

text \<open>
  The exceptions that can leave the functions modelled here. \<^verbatim>\<open>FileNotFoundError\<close> is a
  subclass of \<^verbatim>\<open>OSError\<close>; \<^verbatim>\<open>ParseError\<close> is raised by \<^verbatim>\<open>ET.parse\<close>; \<^verbatim>\<open>TypeError\<close> is raised
  by a call whose keyword arguments do not fit the callee's signature.
\<close>

datatype error = FileNotFoundError | OSError | UnicodeDecodeError | ParseError | TypeError

text \<open>The exceptions matched by \<^verbatim>\<open>except (OSError, UnicodeDecodeError)\<close>.\<close>

definition is_os_or_decode_error :: "error \<Rightarrow> bool" where
  "is_os_or_decode_error e \<longleftrightarrow> e = FileNotFoundError \<or> e = OSError \<or> e = UnicodeDecodeError"

section \<open>Strings and pure path operations\<close>

text \<open>
  Strings are lists of 8-bit characters, and a character stands for the code point of its
  number: the model speaks of text whose code points lie below 256.

  \<^verbatim>\<open>str.lower\<close> on these code points: the letters A to Z, and the capital letters from
  \<^verbatim>\<open>0xC0\<close> to \<^verbatim>\<open>0xDE\<close> without the multiplication sign \<^verbatim>\<open>0xD7\<close>, move up by \<^verbatim>\<open>0x20\<close>; every
  other character is left as it is.
\<close>

definition upper_letters :: string where
  "upper_letters =
     ''ABCDEFGHIJKLMNOPQRSTUVWXYZ''
     @ [CHR 0xC0, CHR 0xC1, CHR 0xC2, CHR 0xC3, CHR 0xC4, CHR 0xC5, CHR 0xC6, CHR 0xC7,
        CHR 0xC8, CHR 0xC9, CHR 0xCA, CHR 0xCB, CHR 0xCC, CHR 0xCD, CHR 0xCE, CHR 0xCF,
        CHR 0xD0, CHR 0xD1, CHR 0xD2, CHR 0xD3, CHR 0xD4, CHR 0xD5, CHR 0xD6, CHR 0xD8,
        CHR 0xD9, CHR 0xDA, CHR 0xDB, CHR 0xDC, CHR 0xDD, CHR 0xDE]"

definition lower_letters :: string where
  "lower_letters =
     ''abcdefghijklmnopqrstuvwxyz''
     @ [CHR 0xE0, CHR 0xE1, CHR 0xE2, CHR 0xE3, CHR 0xE4, CHR 0xE5, CHR 0xE6, CHR 0xE7,
        CHR 0xE8, CHR 0xE9, CHR 0xEA, CHR 0xEB, CHR 0xEC, CHR 0xED, CHR 0xEE, CHR 0xEF,
        CHR 0xF0, CHR 0xF1, CHR 0xF2, CHR 0xF3, CHR 0xF4, CHR 0xF5, CHR 0xF6, CHR 0xF8,
        CHR 0xF9, CHR 0xFA, CHR 0xFB, CHR 0xFC, CHR 0xFD, CHR 0xFE]"

definition lower_char :: "char \<Rightarrow> char" where
  "lower_char c =
     (case map_of (zip upper_letters lower_letters) c of
        Some d \<Rightarrow> d
      | None \<Rightarrow> c)"

definition lower :: "string \<Rightarrow> string" where
  "lower s = map lower_char s"

definition startswith :: "string \<Rightarrow> string \<Rightarrow> bool" where
  "startswith s p \<longleftrightarrow> take (length p) s = p"

definition endswith :: "string \<Rightarrow> string \<Rightarrow> bool" where
  "endswith s p \<longleftrightarrow> length p \<le> length s \<and> drop (length s - length p) s = p"

text \<open>Python's \<^verbatim>\<open>sub in s\<close> on strings: \<^verbatim>\<open>sub\<close> occurs somewhere in \<^verbatim>\<open>s\<close>.\<close>

fun contains :: "string \<Rightarrow> string \<Rightarrow> bool" where
  "contains sub [] = (sub = [])"
| "contains sub (c # s) = (startswith (c # s) sub \<or> contains sub s)"

text \<open>\<^verbatim>\<open>s.replace("\\", "/")\<close>.\<close>

definition replace_backslash :: "string \<Rightarrow> string" where
  "replace_backslash s = map (\<lambda>c. if c = CHR 0x5C then CHR ''/'' else c) s"

text \<open>\<^verbatim>\<open>s.rfind(c)\<close>: the last index of the character, or -1.\<close>

definition rfind :: "char \<Rightarrow> string \<Rightarrow> int" where
  "rfind c s =
     (if c \<in> set s then int (length s) - 1 - int (length (takeWhile (\<lambda>d. d \<noteq> c) (rev s)))
      else - 1)"

text \<open>
  \<^verbatim>\<open>os.path.splitext\<close> (posixpath): the extension starts at the last dot after the last
  slash, unless only dots stand between that slash and the dot.
\<close>

definition splitext :: "string \<Rightarrow> string \<times> string" where
  "splitext p =
     (let sepIndex = rfind (CHR ''/'') p;
          dotIndex = rfind (CHR ''.'') p
      in if dotIndex > sepIndex \<and>
            list_ex (\<lambda>c. c \<noteq> CHR ''.'')
              (take (nat (dotIndex - (sepIndex + 1))) (drop (nat (sepIndex + 1)) p))
         then (take (nat dotIndex) p, drop (nat dotIndex) p)
         else (p, []))"

text \<open>\<^verbatim>\<open>os.path.basename\<close>, which is \<^verbatim>\<open>Path.name\<close> on a resolved path.\<close>

definition basename :: "string \<Rightarrow> string" where
  "basename p = drop (nat (rfind (CHR ''/'') p + 1)) p"

text \<open>\<^verbatim>\<open>Path.stem\<close>: the name without its last suffix.\<close>

definition stem :: "string \<Rightarrow> string" where
  "stem p =
     (let nm = basename p; i = rfind (CHR ''.'') nm
      in if 0 < i \<and> i < int (length nm) - 1 then take (nat i) nm else nm)"

text \<open>\<^verbatim>\<open>Path.parent\<close> of a path in pathlib's normal form.\<close>

definition parent :: "string \<Rightarrow> string" where
  "parent p =
     (let i = rfind (CHR ''/'') p
      in if i < 0 then ''.'' else if i = 0 then ''/'' else take (nat i) p)"

text \<open>
  \<^verbatim>\<open>d / r\<close>: an absolute right operand replaces the left one. The result is always handed to
  \<^verbatim>\<open>resolve\<close>, which brings it into normal form.
\<close>

definition joinpath :: "string \<Rightarrow> string \<Rightarrow> string" where
  "joinpath d r = (if startswith r ''/'' then r else d @ ''/'' @ r)"

section \<open>Language detection\<close>

definition EXTENSION_LANGUAGE :: "(string \<times> Language) list" where
  "EXTENSION_LANGUAGE =
     [(''.cs'', CSharp), (''.fs'', FSharp), (''.vb'', VB), (''.py'', Python),
      (''.java'', Java), (''.js'', JavaScript), (''.csproj'', CSProject),
      (''.vbproj'', VBProject)]"

text \<open>
  \<^verbatim>\<open>_detect_language\<close>: the lower-cased extension is looked up in the dictionary, with
  \<^verbatim>\<open>Language.Empty\<close> as the default of \<^verbatim>\<open>dict.get\<close>.
\<close>

definition detect_language :: "string \<Rightarrow> Language" where
  "detect_language fname =
     (let ext = lower (snd (splitext fname))
      in case map_of EXTENSION_LANGUAGE ext of Some l \<Rightarrow> l | None \<Rightarrow> Empty)"

section \<open>The host: file system, XML parser and logging level\<close>

text \<open>
  An element of \<^verbatim>\<open>xml.etree.ElementTree\<close>: its tag (with the namespace in braces in front,
  as the parser writes it), its attributes and its children in document order.
\<close>

datatype elem = Elem (tag: string) (attrib: "(string \<times> string) list") (children: "elem list")

text \<open>All proper descendants in document order, as \<^verbatim>\<open>.//\<close> visits them.\<close>

fun descendants :: "elem \<Rightarrow> elem list" where
  "descendants (Elem t a cs) = concat (map (\<lambda>c. c # descendants c) cs)"

text \<open>
  How ElementPath reads the tag \<^verbatim>\<open>t\<close> of a search path \<^verbatim>\<open>.//t\<close>: a tag that starts with
  \<^verbatim>\<open>{*}\<close> selects the name in any namespace or in none, a tag that starts with \<^verbatim>\<open>{}\<close> selects
  the name without a namespace, and any other tag selects the elements with just that tag.
\<close>

definition tag_selects :: "string \<Rightarrow> string \<Rightarrow> bool" where
  "tag_selects t el_tag \<longleftrightarrow>
     (if take 3 t = ''{*}'' then el_tag = drop 3 t \<or> endswith el_tag (drop 2 t)
      else if take 2 t = ''{}'' then el_tag = drop 2 t
      else el_tag = t)"

text \<open>\<^verbatim>\<open>root.findall(".//" + t)\<close>.\<close>

definition findall :: "elem \<Rightarrow> string \<Rightarrow> elem list" where
  "findall root t = filter (\<lambda>e. tag_selects t (tag e)) (descendants root)"

text \<open>\<^verbatim>\<open>s.strip("{")\<close>.\<close>

definition strip_brace :: "string \<Rightarrow> string" where
  "strip_brace s =
     rev (dropWhile (\<lambda>c. c = CHR ''{'') (rev (dropWhile (\<lambda>c. c = CHR ''{'') s)))"

text \<open>
  The namespace prefix of \<^verbatim>\<open>parse_proj\<close>:
  \<^verbatim>\<open>root.tag.split("}")[0].strip("{")\<close> wrapped in braces again, or the empty string.
\<close>

definition ns_prefix :: "elem \<Rightarrow> string" where
  "ns_prefix root =
     (if startswith (tag root) ''{''
      then ''{'' @ strip_brace (takeWhile (\<lambda>c. c \<noteq> CHR ''}'') (tag root)) @ ''}''
      else [])"

text \<open>
  What iterating over a file opened as UTF-8 text delivers: lines, then the end of the file
  or an exception. The text layer reads and decodes the file chunk by chunk (8192 bytes at
  a time), so a \<^verbatim>\<open>UnicodeDecodeError\<close> can follow lines that were already delivered.
\<close>

datatype text_stream = Eof | Raise error | Line string text_stream

datatype node_kind = RegularFile | Directory

text \<open>
  The host as the program sees it:
  \<^item> \<^verbatim>\<open>resolve\<close>: \<^verbatim>\<open>str(pathlib.Path(s).resolve())\<close>;
  \<^item> \<^verbatim>\<open>kind\<close>: what exists at a path, if anything;
  \<^item> \<^verbatim>\<open>et_parse\<close>: \<^verbatim>\<open>ET.parse(p).getroot()\<close> or the exception it raises;
  \<^item> \<^verbatim>\<open>open_utf8\<close>: \<^verbatim>\<open>p.open(encoding="utf-8")\<close>, the exception of the open or the lines;
  \<^item> \<^verbatim>\<open>walk\<close>: every path beneath a directory, in the order of traversal;
  \<^item> \<^verbatim>\<open>debug_enabled\<close>: whether the root logger of \<^verbatim>\<open>loghelper\<close> is enabled for DEBUG
    (it is not with the default configuration, whose level is INFO).
\<close>

record host =
  resolve :: "string \<Rightarrow> string"
  kind :: "string \<Rightarrow> node_kind option"
  et_parse :: "string \<Rightarrow> error + elem"
  open_utf8 :: "string \<Rightarrow> error + text_stream"
  walk :: "string \<Rightarrow> string list"
  debug_enabled :: bool

definition is_file :: "host \<Rightarrow> string \<Rightarrow> bool" where
  "is_file h p \<longleftrightarrow> kind h p = Some RegularFile"

definition is_dir :: "host \<Rightarrow> string \<Rightarrow> bool" where
  "is_dir h p \<longleftrightarrow> kind h p = Some Directory"

text \<open>
  \<^verbatim>\<open>d.rglob("*" + ext)\<close>: pathlib yields nothing when \<^verbatim>\<open>d\<close> is not a directory, and
  otherwise every path beneath \<^verbatim>\<open>d\<close> whose name ends in \<^verbatim>\<open>ext\<close>.
\<close>

definition rglob :: "host \<Rightarrow> string \<Rightarrow> string \<Rightarrow> string list" where
  "rglob h d ext =
     (if is_dir h d then filter (\<lambda>q. endswith (basename q) ext) (walk h d) else [])"

text \<open>
  \<^verbatim>\<open>log_debug(..., file=sys.stderr)\<close>: \<^verbatim>\<open>Logger.debug\<close> returns at once when DEBUG is not
  enabled, and otherwise passes the keyword \<^verbatim>\<open>file\<close> on to \<^verbatim>\<open>Logger._log\<close>, which has no
  such parameter.
\<close>

definition log_debug_file :: "host \<Rightarrow> error option" where
  "log_debug_file h = (if debug_enabled h then Some TypeError else None)"

section \<open>The project resolver (slnprojparse/parsing.py)\<close>

text \<open>
  \<^verbatim>\<open>_get_sdk_files\<close>: the \<^verbatim>\<open>*.cs\<close> paths beneath the folder, then the \<^verbatim>\<open>*.vb\<close> paths, each
  resolved and turned into a \<^verbatim>\<open>CodeFile\<close>. The first parameter is not used.
\<close>

definition get_sdk_files :: "host \<Rightarrow> string \<Rightarrow> string \<Rightarrow> CodeFile list" where
  "get_sdk_files h project_Type proj_path =
     (let codeList = map (resolve h) (rglob h proj_path ''.cs'')
                     @ map (resolve h) (rglob h proj_path ''.vb'')
      in map (\<lambda>cf_path.
                \<lparr>file_name = basename cf_path, full_path = cf_path,
                 language = detect_language (basename cf_path)\<rparr>) codeList)"

text \<open>
  The loop over the \<^verbatim>\<open>Compile\<close> elements. An item without \<^verbatim>\<open>Include\<close>, or with an empty
  one, is passed over, and so is an item whose path is not a file. A C# or VB file is
  appended to \<^verbatim>\<open>code_files\<close>. For a project file the loop evaluates
  \<^verbatim>\<open>Project(file_name=..., full_path=...)\<close>: the dataclass has no field \<^verbatim>\<open>file_name\<close> and four
  required fields are not given, so the call raises \<^verbatim>\<open>TypeError\<close> before anything is
  appended to \<^verbatim>\<open>child_projects\<close>. That list is therefore still empty whenever the loop ends
  normally, and the loop's result is \<^verbatim>\<open>code_files\<close> alone.
\<close>

fun compile_loop :: "host \<Rightarrow> string \<Rightarrow> elem list \<Rightarrow> CodeFile list \<Rightarrow> error + CodeFile list" where
  "compile_loop h proj_path [] cfs = Inr cfs"
| "compile_loop h proj_path (item # items) cfs =
     (case map_of (attrib item) ''Include'' of
        None \<Rightarrow> compile_loop h proj_path items cfs
      | Some inc \<Rightarrow>
          if inc = [] then compile_loop h proj_path items cfs
          else
            let src_path = resolve h (joinpath (parent proj_path) inc)
            in if is_file h src_path
               then
                 let lang = detect_language (basename src_path);
                     cfs' = (if lang = CSharp \<or> lang = VB
                             then cfs @ [\<lparr>file_name = basename src_path, full_path = src_path,
                                          language = detect_language (basename src_path)\<rparr>]
                             else cfs)
                 in if lang = CSProject \<or> lang = VBProject then Inl TypeError
                    else compile_loop h proj_path items cfs'
               else compile_loop h proj_path items cfs)"

text \<open>
  \<^verbatim>\<open>child_proj.child_projects.extend(grandchildren)\<close>. \<^verbatim>\<open>parse_proj\<close> returns the list it
  stored in the project and that same list as second component, so the list is extended by
  its own elements.
\<close>

fun extend_child_projects :: "Project \<Rightarrow> Project list \<Rightarrow> Project" where
  "extend_child_projects (Project fp fo n cfs cps) grandchildren =
     Project fp fo n cfs (cps @ grandchildren)"

text \<open>
  The result of a call of \<^verbatim>\<open>parse_proj\<close>: \<^verbatim>\<open>None\<close> when the recursion is deeper than the
  fuel, else the exception raised, or the pair returned together with the set \<^verbatim>\<open>visited\<close>
  as the call leaves it (the set is one object, shared by all calls and changed in place).
\<close>

type_synonym parse_result = "(error + (Project \<times> Project list) \<times> string set) option"

text \<open>
  The loop over the \<^verbatim>\<open>ProjectReference\<close> elements; \<^verbatim>\<open>rec\<close> is the recursive call of
  \<^verbatim>\<open>parse_proj\<close>. A path is added to \<^verbatim>\<open>visited\<close> before it is resolved and is never removed.
\<close>

fun reference_loop ::
  "(string \<Rightarrow> string set \<Rightarrow> parse_result) \<Rightarrow> host \<Rightarrow> string \<Rightarrow> elem list \<Rightarrow> string set \<Rightarrow>
   Project list \<Rightarrow> (error + Project list \<times> string set) option" where
  "reference_loop rec h proj_path [] visited cps = Some (Inr (cps, visited))"
| "reference_loop rec h proj_path (ref # refs) visited cps =
     (case map_of (attrib ref) ''Include'' of
        None \<Rightarrow> reference_loop rec h proj_path refs visited cps
      | Some inc \<Rightarrow>
          let child_path = resolve h (joinpath (parent proj_path) inc)
          in if child_path \<in> visited then reference_loop rec h proj_path refs visited cps
             else
               (case rec child_path (insert child_path visited) of
                  None \<Rightarrow> None
                | Some (Inl e) \<Rightarrow> Some (Inl e)
                | Some (Inr ((child_proj, grandchildren), visited')) \<Rightarrow>
                    reference_loop rec h proj_path refs visited'
                      (cps @ [extend_child_projects child_proj grandchildren])))"

definition project_type_of :: "elem \<Rightarrow> string" where
  "project_type_of root =
     (case map_of (attrib root) ''Sdk'' of
        None \<Rightarrow> ''UNKNOWN''
      | Some v \<Rightarrow> if v = ''Microsoft.NET.Sdk'' then ''dotNET_SDK'' else ''UNKNOWN'')"

text \<open>The last part of \<^verbatim>\<open>parse_proj\<close>: the SDK fallback and the \<^verbatim>\<open>Project\<close> it builds.\<close>

definition build_project :: "host \<Rightarrow> string \<Rightarrow> elem \<Rightarrow> CodeFile list \<Rightarrow> Project list \<Rightarrow> Project" where
  "build_project h proj_path root cfs cps =
     (let project_type = project_type_of root;
          collected_source_files =
            (if length cfs < 1 \<and> project_type = ''dotNET_SDK''
             then get_sdk_files h project_type (parent proj_path) else cfs);
          proj_folder_path = resolve h (parent proj_path);
          proj_full_path = resolve h (parent proj_path) @ ''/'' @ basename proj_path
      in Project proj_full_path proj_folder_path (stem proj_path) collected_source_files cps)"

text \<open>
  \<^verbatim>\<open>parse_proj\<close>. The first argument bounds the depth of the recursion; the exception of
  \<^verbatim>\<open>ET.parse\<close> is passed on as it is.
\<close>

primrec parse_proj :: "nat \<Rightarrow> host \<Rightarrow> string \<Rightarrow> string set \<Rightarrow> parse_result" where
  "parse_proj 0 h p visited = None"
| "parse_proj (Suc fuel) h p visited =
     (let proj_path = resolve h (replace_backslash p)
      in if \<not> is_file h proj_path then Some (Inl FileNotFoundError)
         else
           (case et_parse h proj_path of
              Inl e \<Rightarrow> Some (Inl e)
            | Inr root \<Rightarrow>
                (case compile_loop h proj_path (findall root (ns_prefix root @ ''Compile'')) [] of
                   Inl e \<Rightarrow> Some (Inl e)
                 | Inr cfs \<Rightarrow>
                     (case reference_loop (parse_proj fuel h) h proj_path
                             (findall root (ns_prefix root @ ''ProjectReference'')) visited [] of
                        None \<Rightarrow> None
                      | Some (Inl e) \<Rightarrow> Some (Inl e)
                      | Some (Inr (cps, visited')) \<Rightarrow>
                          Some (Inr ((build_project h proj_path root cfs cps, cps), visited'))))))"

text \<open>\<^verbatim>\<open>_process_child_project\<close>: the folder path is computed again from the full path.\<close>

fun process_child_project :: "host \<Rightarrow> Project \<Rightarrow> Project" where
  "process_child_project h (Project fp fo n cfs cps) = Project fp (resolve h (parent fp)) n cfs cps"

text \<open>\<^verbatim>\<open>_parse_project_file\<close>: \<^verbatim>\<open>parse_proj\<close> with a fresh \<^verbatim>\<open>visited\<close> set.\<close>

definition parse_project_file :: "nat \<Rightarrow> host \<Rightarrow> string \<Rightarrow> (error + Project) option" where
  "parse_project_file fuel h proj_path =
     (case parse_proj fuel h proj_path {} of
        None \<Rightarrow> None
      | Some (Inl e) \<Rightarrow> Some (Inl e)
      | Some (Inr ((rootProj, childProj), visited')) \<Rightarrow>
          Some (Inr (Project (resolve h (parent proj_path) @ ''/'' @ basename proj_path)
                       (resolve h (parent proj_path)) (stem proj_path) (code_files rootProj)
                       (map (process_child_project h) childProj))))"

section \<open>The solution resolver and the discovery driver\<close>

text \<open>
  \<^verbatim>\<open>_PROJECT_LINE_RE.match(line)\<close>. No part of the pattern can be matched in two ways (each
  repetition runs up to a character it excludes), so the match is computed from left to
  right. \<^verbatim>\<open>\s\<close> matches the white space of Unicode, which below 256 is the code points 9 to
  13, 28 to 32, \<^verbatim>\<open>0x85\<close> (next line) and \<^verbatim>\<open>0xA0\<close> (no-break space); \<^verbatim>\<open>re.IGNORECASE\<close> bears
  on the letters of \<^verbatim>\<open>Project\<close> only.
\<close>

definition is_space :: "char \<Rightarrow> bool" where
  "is_space c \<longleftrightarrow>
     (of_char c :: nat) \<in> {9, 10, 11, 12, 13, 28, 29, 30, 31, 32, 133, 160}"

definition skip_space :: "string \<Rightarrow> string" where
  "skip_space s = dropWhile is_space s"

definition expect :: "string \<Rightarrow> string \<Rightarrow> string option" where
  "expect lit s = (if startswith s lit then Some (drop (length lit) s) else None)"

definition expect_ignorecase :: "string \<Rightarrow> string \<Rightarrow> string option" where
  "expect_ignorecase lit s =
     (if length lit \<le> length s \<and> lower (take (length lit) s) = lower lit
      then Some (drop (length lit) s) else None)"

text \<open>\<^verbatim>\<open>[^c]+\<close>: the longest run of characters other than \<^verbatim>\<open>c\<close>, which must not be empty.\<close>

definition some_except :: "char \<Rightarrow> string \<Rightarrow> (string \<times> string) option" where
  "some_except c s =
     (let run = takeWhile (\<lambda>d. d \<noteq> c) s
      in if run = [] then None else Some (run, drop (length run) s))"

text \<open>\<^verbatim>\<open>\s*\<close>, a quotation mark, \<^verbatim>\<open>[^"]+\<close> and a quotation mark: the group and the rest.\<close>

definition quoted :: "string \<Rightarrow> (string \<times> string) option" where
  "quoted s =
     Option.bind (expect [CHR 0x22] (skip_space s)) (\<lambda>s1.
     Option.bind (some_except (CHR 0x22) s1) (\<lambda>(g, s2).
     Option.bind (expect [CHR 0x22] s2) (\<lambda>s3. Some (g, s3))))"

text \<open>A quotation mark, \<^verbatim>\<open>\{[^}]+\}\<close> and a quotation mark: the rest.\<close>

definition quoted_guid :: "string \<Rightarrow> string option" where
  "quoted_guid s =
     Option.bind (expect (CHR 0x22 # ''{'') s) (\<lambda>s1.
     Option.bind (some_except (CHR ''}'') s1) (\<lambda>(g, s2).
     expect (CHR ''}'' # [CHR 0x22]) s2))"

text \<open>The groups \<^verbatim>\<open>proj_name\<close> and \<^verbatim>\<open>proj_path\<close> of a matching line.\<close>

definition project_line_match :: "string \<Rightarrow> (string \<times> string) option" where
  "project_line_match line =
     Option.bind (expect_ignorecase ''Project'' line) (\<lambda>s1.
     Option.bind (expect ''('' s1) (\<lambda>s2.
     Option.bind (quoted_guid s2) (\<lambda>s3.
     Option.bind (expect '')'' s3) (\<lambda>s4.
     Option.bind (expect ''='' (skip_space s4)) (\<lambda>s5.
     Option.bind (quoted s5) (\<lambda>(proj_name, s6).
     Option.bind (expect '','' (skip_space s6)) (\<lambda>s7.
     Option.bind (quoted s7) (\<lambda>(proj_path, s8).
     Option.bind (expect '','' (skip_space s8)) (\<lambda>s9.
     Option.bind (quoted_guid (skip_space s9)) (\<lambda>s10.
       Some (proj_name, proj_path)))))))))))"

text \<open>
  The test of \<^verbatim>\<open>_parse_solution_file\<close> for a supported project type:
  \<^verbatim>\<open>'.csproj' in sProj_path.lower() or '.vbproj' in sProj_path\<close>.
\<close>

definition supported_project_ref :: "string \<Rightarrow> bool" where
  "supported_project_ref sProj_path \<longleftrightarrow>
     contains ''.csproj'' (lower sProj_path) \<or> contains ''.vbproj'' sProj_path"

text \<open>
  The body of the \<^verbatim>\<open>try\<close> of \<^verbatim>\<open>_parse_solution_file\<close>: the loop over the lines. Its result is
  the list \<^verbatim>\<open>solution.projects\<close> as the loop leaves it, and the exception that ended the loop,
  if one did. \<^verbatim>\<open>str(pathlib.Path(s))\<close> removes repeated slashes and components that are a
  single dot; no occurrence of \<^verbatim>\<open>.csproj\<close> or \<^verbatim>\<open>.vbproj\<close> appears or disappears by that, and
  the path is resolved afterwards, so the string is taken as it is.
\<close>

fun solution_loop ::
  "nat \<Rightarrow> host \<Rightarrow> string \<Rightarrow> text_stream \<Rightarrow> Project list \<Rightarrow> (Project list \<times> error option) option" where
  "solution_loop fuel h sln_path Eof ps = Some (ps, None)"
| "solution_loop fuel h sln_path (Raise e) ps = Some (ps, Some e)"
| "solution_loop fuel h sln_path (Line line fh) ps =
     (case project_line_match line of
        None \<Rightarrow> solution_loop fuel h sln_path fh ps
      | Some (proj_name, m_proj_path) \<Rightarrow>
          let proj_path = replace_backslash m_proj_path
          in if supported_project_ref proj_path
             then
               (case parse_project_file fuel h (resolve h (joinpath (parent sln_path) proj_path)) of
                  None \<Rightarrow> None
                | Some (Inl e) \<Rightarrow> Some (ps, Some e)
                | Some (Inr project) \<Rightarrow> solution_loop fuel h sln_path fh (ps @ [project]))
             else solution_loop fuel h sln_path fh ps)"

text \<open>
  The \<^verbatim>\<open>except\<close> clause: an \<^verbatim>\<open>OSError\<close> or \<^verbatim>\<open>UnicodeDecodeError\<close> is logged and the solution
  is returned as it stands; any other exception leaves the function.
\<close>

definition solution_after ::
  "host \<Rightarrow> Solution \<Rightarrow> error option \<Rightarrow> error + Solution" where
  "solution_after h solution exc =
     (case exc of
        None \<Rightarrow> Inr solution
      | Some e \<Rightarrow>
          if is_os_or_decode_error e
          then (case log_debug_file h of Some e' \<Rightarrow> Inl e' | None \<Rightarrow> Inr solution)
          else Inl e)"

text \<open>\<^verbatim>\<open>_parse_solution_file\<close>.\<close>

definition parse_solution_file :: "nat \<Rightarrow> host \<Rightarrow> string \<Rightarrow> (error + Solution) option" where
  "parse_solution_file fuel h sln_path =
     (let solution_name = basename sln_path;
          solution_root = resolve h (parent sln_path)
      in case open_utf8 h sln_path of
           Inl e \<Rightarrow>
             Some (solution_after h
               \<lparr>full_path = solution_root, solution_name = solution_name, projects = []\<rparr> (Some e))
         | Inr fh \<Rightarrow>
             (case solution_loop fuel h sln_path fh [] of
                None \<Rightarrow> None
              | Some (ps, exc) \<Rightarrow>
                  Some (solution_after h
                    \<lparr>full_path = solution_root, solution_name = solution_name, projects = ps\<rparr>
                    exc)))"

text \<open>The loop of \<^verbatim>\<open>discover_solution_set\<close> over the solution files found.\<close>

fun discover_loop ::
  "nat \<Rightarrow> host \<Rightarrow> string list \<Rightarrow> Solution list \<Rightarrow> (error + Solution list) option" where
  "discover_loop fuel h [] sols = Some (Inr sols)"
| "discover_loop fuel h (sln_file # sln_files) sols =
     (case parse_solution_file fuel h sln_file of
        None \<Rightarrow> None
      | Some (Inl e) \<Rightarrow> Some (Inl e)
      | Some (Inr solution) \<Rightarrow> discover_loop fuel h sln_files (sols @ [solution]))"

text \<open>
  \<^verbatim>\<open>discover_solution_set\<close>. The start path is resolved first, so \<^verbatim>\<open>absolute()\<close> does not
  change it any more.
\<close>

definition discover_solution_set :: "nat \<Rightarrow> host \<Rightarrow> string \<Rightarrow> (error + SolutionSet) option" where
  "discover_solution_set fuel h p =
     (let start = resolve h p
      in case discover_loop fuel h (rglob h start ''.sln'') [] of
           None \<Rightarrow> None
         | Some (Inl e) \<Rightarrow> Some (Inl e)
         | Some (Inr sols) \<Rightarrow> Some (Inr \<lparr>start_path = start, solutions = sols\<rparr>))"

section \<open>Notions used in the statements\<close>

text \<open>
  The paths the \<^verbatim>\<open>ProjectReference\<close> elements of a project resolve to, in document order:
  one for every element that has an \<^verbatim>\<open>Include\<close> attribute.
\<close>

definition reference_paths :: "host \<Rightarrow> string \<Rightarrow> elem list \<Rightarrow> string list" where
  "reference_paths h proj_path refs =
     List.map_filter
       (\<lambda>r. map_option (\<lambda>inc. resolve h (joinpath (parent proj_path) inc))
               (map_of (attrib r) ''Include'')) refs"

text \<open>
  The loop over the references seen from these paths. It is shown below to compute what
  \<^verbatim>\<open>reference_loop\<close> computes.
\<close>

fun resolve_children ::
  "(string \<Rightarrow> string set \<Rightarrow> parse_result) \<Rightarrow> string list \<Rightarrow> string set \<Rightarrow>
   Project list \<Rightarrow> (error + Project list \<times> string set) option" where
  "resolve_children rec [] visited cps = Some (Inr (cps, visited))"
| "resolve_children rec (child_path # paths) visited cps =
     (if child_path \<in> visited then resolve_children rec paths visited cps
      else
        (case rec child_path (insert child_path visited) of
           None \<Rightarrow> None
         | Some (Inl e) \<Rightarrow> Some (Inl e)
         | Some (Inr ((child_proj, grandchildren), visited')) \<Rightarrow>
             resolve_children rec paths visited'
               (cps @ [extend_child_projects child_proj grandchildren])))"

text \<open>
  A \<^verbatim>\<open>Compile\<close> item that names an existing file classified as a project file.
\<close>

definition is_project_item :: "host \<Rightarrow> string \<Rightarrow> elem \<Rightarrow> bool" where
  "is_project_item h proj_path item \<longleftrightarrow>
     (case map_of (attrib item) ''Include'' of
        None \<Rightarrow> False
      | Some inc \<Rightarrow>
          inc \<noteq> [] \<and> is_file h (resolve h (joinpath (parent proj_path) inc)) \<and>
          (detect_language (basename (resolve h (joinpath (parent proj_path) inc))) = CSProject \<or>
           detect_language (basename (resolve h (joinpath (parent proj_path) inc))) = VBProject))"

text \<open>
  What \<^verbatim>\<open>parse_proj\<close> finds when it is called with the path \<^verbatim>\<open>q\<close>: the file that \<^verbatim>\<open>q\<close>
  resolves to exists and parses to \<^verbatim>\<open>root\<close>, its \<^verbatim>\<open>Compile\<close> items yield \<^verbatim>\<open>cfs\<close> without an
  exception, and its references resolve to \<^verbatim>\<open>refs\<close>.
\<close>

definition resolves_as :: "host \<Rightarrow> string \<Rightarrow> elem \<Rightarrow> CodeFile list \<Rightarrow> string list \<Rightarrow> bool" where
  "resolves_as h q root cfs refs \<longleftrightarrow>
     is_file h (resolve h (replace_backslash q)) \<and>
     et_parse h (resolve h (replace_backslash q)) = Inr root \<and>
     compile_loop h (resolve h (replace_backslash q))
       (findall root (ns_prefix root @ ''Compile'')) [] = Inr cfs \<and>
     reference_paths h (resolve h (replace_backslash q))
       (findall root (ns_prefix root @ ''ProjectReference'')) = refs"

text \<open>The project that \<^verbatim>\<open>parse_proj\<close> builds for the path \<^verbatim>\<open>q\<close> then, with the given children.\<close>

definition project_at :: "host \<Rightarrow> string \<Rightarrow> elem \<Rightarrow> CodeFile list \<Rightarrow> Project list \<Rightarrow> Project" where
  "project_at h q root cfs cps = build_project h (resolve h (replace_backslash q)) root cfs cps"

text \<open>
  Reading the lines raises an \<^verbatim>\<open>OSError\<close> or a \<^verbatim>\<open>UnicodeDecodeError\<close> before any line
  with a supported project has been delivered.
\<close>

fun raises_before_project :: "text_stream \<Rightarrow> bool" where
  "raises_before_project Eof = False"
| "raises_before_project (Raise e) = is_os_or_decode_error e"
| "raises_before_project (Line line fh) =
     (case project_line_match line of
        None \<Rightarrow> raises_before_project fh
      | Some (proj_name, m_proj_path) \<Rightarrow>
          \<not> supported_project_ref (replace_backslash m_proj_path) \<and> raises_before_project fh)"

text \<open>
  The solution file cannot be opened, or reading it fails before a supported project line.
\<close>

definition unreadable :: "host \<Rightarrow> string \<Rightarrow> bool" where
  "unreadable h sln_path =
     (case open_utf8 h sln_path of
        Inl e \<Rightarrow> is_os_or_decode_error e
      | Inr fh \<Rightarrow> raises_before_project fh)"

text \<open>
  The paths that a reference can resolve to and that \<^verbatim>\<open>parse_proj\<close> accepts as a file. On a
  real file system there are finitely many of them.
\<close>

definition reachable_keys :: "host \<Rightarrow> string set" where
  "reachable_keys h = {q \<in> range (resolve h). is_file h (resolve h (replace_backslash q))}"

text \<open>
  The lines of a file up to the first \<^verbatim>\<open>OSError\<close> or \<^verbatim>\<open>UnicodeDecodeError\<close> that reading it
  raises: the file as it would be if it ended there.
\<close>

fun until_failure :: "text_stream \<Rightarrow> text_stream" where
  "until_failure Eof = Eof"
| "until_failure (Raise e) = (if is_os_or_decode_error e then Eof else Raise e)"
| "until_failure (Line line fh) = Line line (until_failure fh)"

section \<open>Example hosts\<close>

text \<open>
  A host over a finite set of files and directories whose paths are in resolved form
  already; \<^verbatim>\<open>xmls\<close> gives the project files that parse, \<^verbatim>\<open>texts\<close> what reading each text
  file delivers. DEBUG logging is off.
\<close>

definition example_host ::
  "string list \<Rightarrow> string list \<Rightarrow> (string \<times> elem) list \<Rightarrow> (string \<times> text_stream) list \<Rightarrow> host" where
  "example_host files dirs xmls texts =
     \<lparr>resolve = (\<lambda>s. s),
      kind = (\<lambda>p. if p \<in> set files then Some RegularFile
                  else if p \<in> set dirs then Some Directory else None),
      et_parse = (\<lambda>p. case map_of xmls p of Some r \<Rightarrow> Inr r | None \<Rightarrow> Inl ParseError),
      open_utf8 = (\<lambda>p. case map_of texts p of Some s \<Rightarrow> Inr s | None \<Rightarrow> Inl FileNotFoundError),
      walk = (\<lambda>d. filter (\<lambda>q. startswith q (d @ ''/'')) (dirs @ files)),
      debug_enabled = False\<rparr>"

text \<open>A project file with the given root attributes, compile items and references.\<close>

definition project_xml :: "(string \<times> string) list \<Rightarrow> string list \<Rightarrow> string list \<Rightarrow> elem" where
  "project_xml attrs compiles refs =
     Elem ''Project'' attrs
       [Elem ''ItemGroup'' [] (map (\<lambda>c. Elem ''Compile'' [(''Include'', c)] []) compiles),
        Elem ''ItemGroup'' []
          (map (\<lambda>r. Elem ''ProjectReference'' [(''Include'', r)] []) refs)]"

text \<open>A project line of a solution file, for a display name and a path.\<close>

definition project_line :: "string \<Rightarrow> string \<Rightarrow> string" where
  "project_line nm path =
     ''Project('' @ [CHR 0x22] @ ''{FAE04EC0-301F-11D3-BF4B-00C04F79EFBC}'' @ [CHR 0x22]
     @ '') = '' @ [CHR 0x22] @ nm @ [CHR 0x22] @ '', '' @ [CHR 0x22] @ path @ [CHR 0x22]
     @ '', '' @ [CHR 0x22] @ ''{8F3A1C2E-0000-4000-8000-000000000001}'' @ [CHR 0x22]"

text \<open>The path \<^verbatim>\<open>src\Lib.CSProj\<close>, with a backslash as separator.\<close>

definition windows_path :: string where
  "windows_path = ''src'' @ [CHR 0x5C] @ ''Lib.CSProj''"

text \<open>R references B and C, and both reference D.\<close>

definition diamond_host :: host where
  "diamond_host =
     example_host [''/r/R.csproj'', ''/r/B.csproj'', ''/r/C.csproj'', ''/r/D.csproj''] [''/r'']
       [(''/r/R.csproj'', project_xml [] [] [''B.csproj'', ''C.csproj'']),
        (''/r/B.csproj'', project_xml [] [] [''D.csproj'']),
        (''/r/C.csproj'', project_xml [] [] [''D.csproj'']),
        (''/r/D.csproj'', project_xml [] [] [])] []"

text \<open>
  The same diamond with B, C and D in folders of their own, on a host where the backslash
  is not a separator: B and C name D by \<^verbatim>\<open>..\D\D.csproj\<close>, and the two references resolve
  to different paths.
\<close>

definition backslash_include :: string where
  "backslash_include = ''..'' @ [CHR 0x5C] @ ''D'' @ [CHR 0x5C] @ ''D.csproj''"

definition posix_diamond_host :: host where
  "posix_diamond_host =
     (example_host [''/r/R.csproj'', ''/r/B/B.csproj'', ''/r/C/C.csproj'', ''/r/D/D.csproj'']
        [''/r'', ''/r/B'', ''/r/C'', ''/r/D'']
        [(''/r/R.csproj'', project_xml [] [] [''B/B.csproj'', ''C/C.csproj'']),
         (''/r/B/B.csproj'', project_xml [] [] [backslash_include]),
         (''/r/C/C.csproj'', project_xml [] [] [backslash_include]),
         (''/r/D/D.csproj'', project_xml [] [] [])] [])
     \<lparr>resolve := (\<lambda>s. if s = ''/r/B/../D/D.csproj'' \<or> s = ''/r/C/../D/D.csproj''
                       then ''/r/D/D.csproj'' else s)\<rparr>"

text \<open>A references B and B references A.\<close>

definition cycle_host :: host where
  "cycle_host =
     example_host [''/r/A.csproj'', ''/r/B.csproj''] [''/r'']
       [(''/r/A.csproj'', project_xml [] [] [''B.csproj'']),
        (''/r/B.csproj'', project_xml [] [] [''A.csproj''])] []"


text \<open>
  \<^verbatim>\<open>App.csproj\<close> lists a source file and a project file as compile items; \<^verbatim>\<open>Lib.csproj\<close>
  lists a file that does not exist and one that does.
\<close>

definition compile_host :: host where
  "compile_host =
     example_host [''/r/App.csproj'', ''/r/Other.csproj'', ''/r/Lib.csproj'', ''/r/Program.cs'']
       [''/r'']
       [(''/r/App.csproj'', project_xml [] [''Program.cs'', ''Other.csproj''] []),
        (''/r/Other.csproj'', project_xml [] [] []),
        (''/r/Lib.csproj'', project_xml [] [''Gone.cs'', ''Program.cs''] [])] []"

text \<open>An SDK-style project without compile items, and two source files in its folder.\<close>

definition sdk_host :: host where
  "sdk_host =
     example_host
       [''/r/App/App.csproj'', ''/r/App/Program.cs'', ''/r/App/Helpers/Util.cs'']
       [''/r'', ''/r/App'', ''/r/App/Helpers'']
       [(''/r/App/App.csproj'', project_xml [(''Sdk'', ''Microsoft.NET.Sdk'')] [] [])] []"

text \<open>
  Three solution files: \<^verbatim>\<open>Ext.sln\<close> names \<^verbatim>\<open>App.csproj.user\<close>; reading \<^verbatim>\<open>Late.sln\<close> fails
  after a project line; reading \<^verbatim>\<open>Bad.sln\<close> fails after a header line and a solution
  folder. \<^verbatim>\<open>Missing.sln\<close> does not exist.
\<close>

definition solution_host :: host where
  "solution_host =
     example_host
       [''/r/Ext.sln'', ''/r/Late.sln'', ''/r/Bad.sln'', ''/r/App.csproj'', ''/r/App.csproj.user'',
        ''/r/src/Lib.CSProj'']
       [''/r'', ''/r/src'']
       [(''/r/App.csproj'', project_xml [] [] []),
        (''/r/src/Lib.CSProj'', project_xml [] [] []),
        (''/r/App.csproj.user'', project_xml [] [] [])]
       [(''/r/Ext.sln'', Line (project_line ''App'' ''App.csproj.user'') Eof),
        (''/r/Late.sln'',
           Line (project_line ''App'' ''App.csproj'') (Raise UnicodeDecodeError)),
        (''/r/Bad.sln'',
           Line ''Microsoft Visual Studio Solution File, Format Version 12.00''
             (Line (project_line ''Docs'' ''Docs'') (Raise UnicodeDecodeError)))]"

section \<open>The language classifier\<close>

text \<open>
  For a name \<^verbatim>\<open>base.e\<close> without a slash, where \<^verbatim>\<open>e\<close> has no dot and \<^verbatim>\<open>base\<close> does not
  consist of dots only, the extension found is \<^verbatim>\<open>.e\<close>.
\<close>

lemma rfind_last:
  assumes "c \<notin> set ys"
  shows "rfind c (xs @ c # ys) = int (length xs)"
proof -
  have "takeWhile (\<lambda>d. d \<noteq> c) (rev ys @ c # rev xs) = rev ys"
    using assms by (subst takeWhile_append2) auto
  then show ?thesis by (simp add: rfind_def)
qed

lemma rfind_absent: "c \<notin> set s \<Longrightarrow> rfind c s = - 1"
  by (simp add: rfind_def)

lemma splitext_name:
  assumes "CHR ''/'' \<notin> set base" and "list_ex (\<lambda>c. c \<noteq> CHR ''.'') base"
    and "CHR ''/'' \<notin> set e" and "CHR ''.'' \<notin> set e"
  shows "splitext (base @ ''.'' @ e) = (base, ''.'' @ e)"
proof -
  have "rfind (CHR ''/'') (base @ ''.'' @ e) = - 1"
    using assms(1,3) by (simp add: rfind_absent)
  moreover have "rfind (CHR ''.'') (base @ ''.'' @ e) = int (length base)"
    using rfind_last [OF assms(4), of base] by simp
  ultimately show ?thesis
    using assms(2) by (simp add: splitext_def)
qed

lemma splitext_no_dot: "CHR ''.'' \<notin> set f \<Longrightarrow> splitext f = (f, [])"
proof -
  assume a: "CHR ''.'' \<notin> set f"
  have "length (takeWhile (\<lambda>d. d \<noteq> CHR ''/'') (rev f)) \<le> length f"
    using length_takeWhile_le [of "\<lambda>d. d \<noteq> CHR ''/''" "rev f"] by simp
  then have "- 1 \<le> rfind (CHR ''/'') f" by (simp add: rfind_def)
  with a show ?thesis by (simp add: splitext_def rfind_absent)
qed

lemma lower_char_dot: "lower_char (CHR ''.'') = CHR ''.''"
  by code_simp

lemma detect_language_name:
  assumes "CHR ''/'' \<notin> set base" and "list_ex (\<lambda>c. c \<noteq> CHR ''.'') base"
    and "CHR ''/'' \<notin> set e" and "CHR ''.'' \<notin> set e"
  shows "detect_language (base @ ''.'' @ e)
         = (case map_of EXTENSION_LANGUAGE (''.'' @ lower e) of Some l \<Rightarrow> l | None \<Rightarrow> Empty)"
  using splitext_name [OF assms] by (simp add: detect_language_def lower_def lower_char_dot)

lemma lower_examples:
  "lower (''App.CsProj'' @ [CHR 0xC0, CHR 0xD7, CHR 0xDE, CHR 0xDF]) =
     ''app.csproj'' @ [CHR 0xE0, CHR 0xD7, CHR 0xFE, CHR 0xDF]"
  by code_simp

lemma detect_language_examples:
  "map detect_language [''Foo.cs'', ''Foo.CS'', ''lib.Fs'', ''M.vb'', ''a.py'', ''A.java'', ''x.js'',
      ''App.CsProj'', ''Lib.vbproj'', ''Foo.xyz'', ''Makefile'', ''.cs'']
   = [CSharp, CSharp, FSharp, VB, Python, Java, JavaScript, CSProject, VBProject, Empty, Empty, Empty]"
  by code_simp

text \<open>
  Claim C8. \<^verbatim>\<open>_detect_language\<close> returns one \<^verbatim>\<open>Language\<close> for every file name: the
  extension that \<^verbatim>\<open>os.path.splitext\<close> finds is lower-cased, the eight extensions of the table
  give their languages, and every other extension, the empty one included, gives
  \<^verbatim>\<open>Empty\<close>. The extension of a name \<^verbatim>\<open>base.e\<close> is \<^verbatim>\<open>.e\<close> (for \<^verbatim>\<open>base\<close> and \<^verbatim>\<open>e\<close> without a
  slash, \<^verbatim>\<open>e\<close> without a dot, \<^verbatim>\<open>base\<close> not made of dots only), and a name without a dot has
  none.
\<close>

theorem detect_language_table:
  "detect_language f =
     (let ext = lower (snd (splitext f))
      in if ext = ''.cs'' then CSharp
         else if ext = ''.fs'' then FSharp
         else if ext = ''.vb'' then VB
         else if ext = ''.py'' then Python
         else if ext = ''.java'' then Java
         else if ext = ''.js'' then JavaScript
         else if ext = ''.csproj'' then CSProject
         else if ext = ''.vbproj'' then VBProject
         else Empty)
   \<and> (CHR ''/'' \<notin> set base \<and> list_ex (\<lambda>c. c \<noteq> CHR ''.'') base
        \<and> CHR ''/'' \<notin> set e \<and> CHR ''.'' \<notin> set e
      \<longrightarrow> snd (splitext (base @ ''.'' @ e)) = ''.'' @ e)
   \<and> (CHR ''.'' \<notin> set f \<longrightarrow> detect_language f = Empty)"
proof (intro conjI impI)
  show "detect_language f =
     (let ext = lower (snd (splitext f))
      in if ext = ''.cs'' then CSharp
         else if ext = ''.fs'' then FSharp
         else if ext = ''.vb'' then VB
         else if ext = ''.py'' then Python
         else if ext = ''.java'' then Java
         else if ext = ''.js'' then JavaScript
         else if ext = ''.csproj'' then CSProject
         else if ext = ''.vbproj'' then VBProject
         else Empty)"
    by (simp add: detect_language_def EXTENSION_LANGUAGE_def Let_def)
next
  assume "CHR ''/'' \<notin> set base \<and> list_ex (\<lambda>c. c \<noteq> CHR ''.'') base
        \<and> CHR ''/'' \<notin> set e \<and> CHR ''.'' \<notin> set e"
  then show "snd (splitext (base @ ''.'' @ e)) = ''.'' @ e"
    using splitext_name [of base e] by simp
next
  assume "CHR ''.'' \<notin> set f"
  then show "detect_language f = Empty"
    by (simp add: detect_language_def EXTENSION_LANGUAGE_def splitext_no_dot lower_def)
qed

theorem detect_language_table_witness:
  "CHR ''/'' \<notin> set ''Foo'' \<and> list_ex (\<lambda>c. c \<noteq> CHR ''.'') ''Foo''
   \<and> CHR ''/'' \<notin> set ''CS'' \<and> CHR ''.'' \<notin> set ''CS''
   \<and> snd (splitext (''Foo'' @ ''.'' @ ''CS'')) = ''.'' @ ''CS''
   \<and> detect_language (''Foo'' @ ''.'' @ ''CS'') = CSharp
   \<and> CHR ''.'' \<notin> set ''Makefile'' \<and> detect_language ''Makefile'' = Empty"
proof -
  have a: "CHR ''/'' \<notin> set ''Foo'' \<and> list_ex (\<lambda>c. c \<noteq> CHR ''.'') ''Foo''
   \<and> CHR ''/'' \<notin> set ''CS'' \<and> CHR ''.'' \<notin> set ''CS''"
    by simp
  have b: "CHR ''.'' \<notin> set ''Makefile''" by simp
  have c: "lower (''.'' @ ''CS'') = ''.cs''" by code_simp
  note t = detect_language_table [of "''Foo'' @ ''.'' @ ''CS''" "''Foo''" "''CS''"]
  from t a have d: "snd (splitext (''Foo'' @ ''.'' @ ''CS'')) = ''.'' @ ''CS''" by blast
  from t have "detect_language (''Foo'' @ ''.'' @ ''CS'')
     = (let ext = lower (snd (splitext (''Foo'' @ ''.'' @ ''CS'')))
      in if ext = ''.cs'' then CSharp
         else if ext = ''.fs'' then FSharp
         else if ext = ''.vb'' then VB
         else if ext = ''.py'' then Python
         else if ext = ''.java'' then Java
         else if ext = ''.js'' then JavaScript
         else if ext = ''.csproj'' then CSProject
         else if ext = ''.vbproj'' then VBProject
         else Empty)" by blast
  then have e: "detect_language (''Foo'' @ ''.'' @ ''CS'') = CSharp"
    unfolding d c Let_def by simp
  from detect_language_table [of "''Makefile''" "''Foo''" "''CS''"] b
  have f: "detect_language ''Makefile'' = Empty" by blast
  from a b d e f show ?thesis by blast
qed

section \<open>The project resolver\<close>

subsection \<open>The search for elements\<close>

text \<open>
  In a project whose namespace is \<^verbatim>\<open>*\<close> the search tag is \<^verbatim>\<open>{*}Compile\<close>, which finds the
  \<^verbatim>\<open>Compile\<close> elements of every namespace and of none; in any other namespace it finds the
  elements of that namespace only.
\<close>

lemma findall_examples:
  "map tag (findall
      (Elem ''{*}Project'' []
         [Elem ''{*}Compile'' [] [], Elem ''{u}Compile'' [] [], Elem ''Compile'' [] [],
          Elem ''{*}None'' [] [Elem ''{*}Compile'' [] []], Elem ''XCompile'' [] []])
      (ns_prefix (Elem ''{*}Project'' [] []) @ ''Compile''))
   = [''{*}Compile'', ''{u}Compile'', ''Compile'', ''{*}Compile'']"
  "map tag (findall
      (Elem ''{u}Project'' []
         [Elem ''{u}Compile'' [] [], Elem ''{v}Compile'' [] [], Elem ''Compile'' [] []])
      (ns_prefix (Elem ''{u}Project'' [] []) @ ''Compile''))
   = [''{u}Compile'']"
  by code_simp+

subsection \<open>The loops\<close>

lemma reference_loop_paths:
  "reference_loop rec h p refs visited cps
   = resolve_children rec (reference_paths h p refs) visited cps"
proof (induction refs arbitrary: visited cps)
  case Nil
  show ?case by (simp add: reference_paths_def)
next
  case (Cons r refs)
  show ?case
  proof (cases "map_of (attrib r) ''Include''")
    case None
    then show ?thesis using Cons.IH
      by (simp add: reference_paths_def)
  next
    case (Some inc)
    then show ?thesis using Cons.IH
      by (simp add: reference_paths_def Let_def
          split: option.splits sum.splits prod.splits)
  qed
qed

lemma resolve_children_visited_mono:
  assumes "\<And>q v x v'. rec q v = Some (Inr (x, v')) \<Longrightarrow> v \<subseteq> v'"
    and "resolve_children rec paths visited cps = Some (Inr (cps', visited'))"
  shows "visited \<subseteq> visited'"
  using assms(2)
proof (induction paths arbitrary: visited cps)
  case Nil
  then show ?case by simp
next
  case (Cons q paths)
  show ?case
  proof (cases "q \<in> visited")
    case True
    with Cons show ?thesis by simp
  next
    case False
    with Cons.prems obtain cp gc v1 where
      r: "rec q (insert q visited) = Some (Inr ((cp, gc), v1))"
      and l: "resolve_children rec paths v1 (cps @ [extend_child_projects cp gc])
              = Some (Inr (cps', visited'))"
      by (auto split: option.splits sum.splits prod.splits)
    from assms(1) [OF r] have "insert q visited \<subseteq> v1" .
    moreover from Cons.IH [OF l] have "v1 \<subseteq> visited'" .
    ultimately show ?thesis by blast
  qed
qed

lemma parse_proj_visited_mono:
  "parse_proj fuel h p visited = Some (Inr (x, visited')) \<Longrightarrow> visited \<subseteq> visited'"
proof (induction fuel arbitrary: p visited x visited')
  case 0
  then show ?case by simp
next
  case (Suc fuel)
  from Suc.prems obtain root cfs cps where
    "resolve_children (parse_proj fuel h) 
       (reference_paths h (resolve h (replace_backslash p))
          (findall root (ns_prefix root @ ''ProjectReference''))) visited []
     = Some (Inr (cps, visited'))"
    by (auto simp: Let_def reference_loop_paths split: if_splits sum.splits option.splits prod.splits)
  then show ?case
    using resolve_children_visited_mono [of "parse_proj fuel h"] Suc.IH by blast
qed

lemma parse_proj_Suc:
  assumes "is_file h (resolve h (replace_backslash p))"
    and "et_parse h (resolve h (replace_backslash p)) = Inr root"
  shows "parse_proj (Suc fuel) h p visited =
     (case compile_loop h (resolve h (replace_backslash p))
             (findall root (ns_prefix root @ ''Compile'')) [] of
        Inl e \<Rightarrow> Some (Inl e)
      | Inr cfs \<Rightarrow>
          (case resolve_children (parse_proj fuel h)
                  (reference_paths h (resolve h (replace_backslash p))
                     (findall root (ns_prefix root @ ''ProjectReference''))) visited [] of
             None \<Rightarrow> None
           | Some (Inl e) \<Rightarrow> Some (Inl e)
           | Some (Inr (cps, visited')) \<Rightarrow>
               Some (Inr ((build_project h (resolve h (replace_backslash p)) root cfs cps, cps),
                          visited'))))"
  using assms by (simp add: Let_def reference_loop_paths split: sum.splits)

lemma extend_project_at:
  "extend_child_projects (project_at h q root cfs cps) gc = project_at h q root cfs (cps @ gc)"
  by (simp add: project_at_def build_project_def Let_def)

lemma child_projects_project_at:
  "child_projects (project_at h q root cfs cps) = cps"
  by (simp add: project_at_def build_project_def Let_def)

lemma parse_proj_resolves_as:
  assumes "resolves_as h q root cfs refs"
  shows "parse_proj (Suc fuel) h q visited =
     (case resolve_children (parse_proj fuel h) refs visited [] of
        None \<Rightarrow> None
      | Some (Inl e) \<Rightarrow> Some (Inl e)
      | Some (Inr (cps, visited')) \<Rightarrow>
          Some (Inr ((project_at h q root cfs cps, cps), visited')))"
proof -
  from assms have a: "is_file h (resolve h (replace_backslash q))"
    and b: "et_parse h (resolve h (replace_backslash q)) = Inr root"
    by (simp_all add: resolves_as_def)
  from assms show ?thesis
    unfolding parse_proj_Suc [OF a b]
    by (simp add: resolves_as_def project_at_def split: option.splits sum.splits)
qed




lemma compile_loop_project_item:
  "list_ex (is_project_item h pp) items \<Longrightarrow> compile_loop h pp items cfs = Inl TypeError"
proof (induction items arbitrary: cfs)
  case Nil
  then show ?case by simp
next
  case (Cons item items)
  show ?case
  proof (cases "is_project_item h pp item")
    case True
    then show ?thesis
      by (auto simp: is_project_item_def Let_def split: option.splits)
  next
    case False
    with Cons.prems have "list_ex (is_project_item h pp) items" by simp
    from Cons.IH [OF this] show ?thesis
      by (simp add: Let_def split: option.splits)
  qed
qed


subsection \<open>The recursion ends\<close>

text \<open>
  The visited set bounds the recursion: a call descends only into a path that is not yet
  visited, and a path that is not a file ends the call at once. With finitely many paths
  that lead to a file, every call returns a value or an exception when the depth allowed
  is large enough, and a larger depth does not change what it returns.
\<close>

lemma reference_paths_range: "set (reference_paths h p refs) \<subseteq> range (resolve h)"
  by (induction refs) (auto simp: reference_paths_def split: option.splits)

lemma resolve_children_returns:
  assumes mono: "\<And>q v x v'. rec q v = Some (Inr (x, v')) \<Longrightarrow> v \<subseteq> v'"
    and ok: "\<And>c v'. v \<subseteq> v' \<Longrightarrow> c \<in> S \<Longrightarrow> c \<notin> v' \<Longrightarrow> rec c (insert c v') \<noteq> None"
  shows "set paths \<subseteq> S \<Longrightarrow> v \<subseteq> v0 \<Longrightarrow> resolve_children rec paths v0 cps \<noteq> None"
proof (induction paths arbitrary: v0 cps)
  case Nil
  show ?case by simp
next
  case (Cons c paths)
  show ?case
  proof (cases "c \<in> v0")
    case True
    with Cons show ?thesis by simp
  next
    case False
    from Cons.prems have cS: "c \<in> S" by simp
    from ok [OF Cons.prems(2) cS False] obtain res where res: "rec c (insert c v0) = Some res"
      by blast
    show ?thesis
    proof (cases res)
      case (Inl e)
      with res False show ?thesis by simp
    next
      case (Inr r)
      obtain cp gc v1 where r: "r = ((cp, gc), v1)" by (cases r) auto
      from mono [of c "insert c v0" "(cp, gc)" v1] res Inr r have "insert c v0 \<subseteq> v1" by simp
      with Cons.prems(2) have "v \<subseteq> v1" by blast
      moreover from Cons.prems(1) have "set paths \<subseteq> S" by simp
      ultimately have "resolve_children rec paths v1 (cps @ [extend_child_projects cp gc]) \<noteq> None"
        by (rule Cons.IH [rotated])
      with res Inr r False show ?thesis by simp
    qed
  qed
qed

lemma parse_proj_Suc_returns:
  assumes "\<And>refs. resolve_children (parse_proj f h)
             (reference_paths h (resolve h (replace_backslash p)) refs) v [] \<noteq> None"
  shows "parse_proj (Suc f) h p v \<noteq> None"
proof (cases "is_file h (resolve h (replace_backslash p))")
  case False
  then show ?thesis by simp
next
  case True
  show ?thesis
  proof (cases "et_parse h (resolve h (replace_backslash p))")
    case (Inl e)
    with True show ?thesis by simp
  next
    case (Inr root)
    obtain y where "resolve_children (parse_proj f h)
        (reference_paths h (resolve h (replace_backslash p))
           (findall root (ns_prefix root @ ''ProjectReference''))) v [] = Some y"
      using assms by blast
    then show ?thesis
      unfolding parse_proj_Suc [OF True Inr] by (simp split: sum.splits prod.splits)
  qed
qed

lemma card_keys_insert:
  assumes "finite K" and "c \<in> K" and "c \<notin> v'" and "v \<subseteq> v'" and "card (K - v) \<le> k"
  shows "\<exists>k'. k = Suc k' \<and> card (K - insert c v') \<le> k'"
proof -
  have "K - v' \<subseteq> K - v" using assms(4) by blast
  then have le: "card (K - v') \<le> card (K - v)"
    using assms(1) by (simp add: card_mono)
  have "c \<in> K - v'" using assms(2,3) by simp
  moreover have fin: "finite (K - v')" using assms(1) by simp
  ultimately have pos: "0 < card (K - v')" by (metis card_gt_0_iff empty_iff)
  have "K - insert c v' = (K - v') - {c}" by blast
  then have "card (K - insert c v') = card (K - v') - 1"
    using \<open>c \<in> K - v'\<close> fin by (simp add: card_Diff_singleton)
  with le pos assms(5) show ?thesis by (cases k) auto
qed

lemma parse_proj_returns_bounded:
  assumes fin: "finite (reachable_keys h)"
  shows "card (reachable_keys h - v) \<le> k \<Longrightarrow> k + 2 \<le> fuel \<Longrightarrow> parse_proj fuel h p v \<noteq> None"
proof (induction k arbitrary: fuel p v)
  case 0
  then obtain f where fuel: "fuel = Suc (Suc f)"
    by (cases fuel; cases "fuel - 1") auto
  have "resolve_children (parse_proj (Suc f) h)
          (reference_paths h (resolve h (replace_backslash p)) refs) v [] \<noteq> None" for refs
  proof (rule resolve_children_returns [where S = "range (resolve h)" and v = v])
    show "v \<subseteq> v'" if "parse_proj (Suc f) h q v = Some (Inr (x, v'))" for q v x v'
      using that by (rule parse_proj_visited_mono)
    show "parse_proj (Suc f) h c (insert c v') \<noteq> None"
      if "v \<subseteq> v'" "c \<in> range (resolve h)" "c \<notin> v'" for c v'
    proof (cases "is_file h (resolve h (replace_backslash c))")
      case True
      with that have "c \<in> reachable_keys h" by (simp add: reachable_keys_def)
      from card_keys_insert [OF fin this that(3,1) "0.prems"(1)] show ?thesis by simp
    next
      case False
      then show ?thesis by simp
    qed
    show "set (reference_paths h (resolve h (replace_backslash p)) refs) \<subseteq> range (resolve h)"
      by (rule reference_paths_range)
    show "v \<subseteq> v" by simp
  qed
  then show ?case unfolding fuel by (rule parse_proj_Suc_returns)
next
  case (Suc k)
  then obtain f where fuel: "fuel = Suc (Suc f)" and f: "k + 2 \<le> Suc f"
    by (cases fuel; cases "fuel - 1") auto
  have "resolve_children (parse_proj (Suc f) h)
          (reference_paths h (resolve h (replace_backslash p)) refs) v [] \<noteq> None" for refs
  proof (rule resolve_children_returns [where S = "range (resolve h)" and v = v])
    show "v \<subseteq> v'" if "parse_proj (Suc f) h q v = Some (Inr (x, v'))" for q v x v'
      using that by (rule parse_proj_visited_mono)
    show "parse_proj (Suc f) h c (insert c v') \<noteq> None"
      if "v \<subseteq> v'" "c \<in> range (resolve h)" "c \<notin> v'" for c v'
    proof (cases "is_file h (resolve h (replace_backslash c))")
      case True
      with that have "c \<in> reachable_keys h" by (simp add: reachable_keys_def)
      from card_keys_insert [OF fin this that(3,1) Suc.prems(1)]
      have "card (reachable_keys h - insert c v') \<le> k" by simp
      from Suc.IH [OF this f] show ?thesis .
    next
      case False
      then show ?thesis by simp
    qed
    show "set (reference_paths h (resolve h (replace_backslash p)) refs) \<subseteq> range (resolve h)"
      by (rule reference_paths_range)
    show "v \<subseteq> v" by simp
  qed
  then show ?case unfolding fuel by (rule parse_proj_Suc_returns)
qed

lemma resolve_children_rec_mono:
  assumes "\<And>q v r. rec q v = Some r \<Longrightarrow> rec' q v = Some r"
  shows "resolve_children rec paths v cps = Some r \<Longrightarrow> resolve_children rec' paths v cps = Some r"
proof (induction paths arbitrary: v cps)
  case Nil
  then show ?case by simp
next
  case (Cons c paths)
  show ?case
  proof (cases "c \<in> v")
    case True
    with Cons show ?thesis by simp
  next
    case False
    with Cons.prems obtain y where y: "rec c (insert c v) = Some y"
      by (auto split: option.splits)
    from assms [OF y] have y': "rec' c (insert c v) = Some y" .
    from Cons.prems Cons.IH False y y' show ?thesis
      by (auto split: sum.splits prod.splits)
  qed
qed

lemma parse_proj_fuel_Suc:
  "parse_proj fuel h p v = Some r \<Longrightarrow> parse_proj (Suc fuel) h p v = Some r"
proof (induction fuel arbitrary: p v r)
  case 0
  then show ?case by simp
next
  case (Suc fuel)
  show ?case
  proof (cases "is_file h (resolve h (replace_backslash p))")
    case False
    with Suc.prems show ?thesis by simp
  next
    case True
    show ?thesis
    proof (cases "et_parse h (resolve h (replace_backslash p))")
      case (Inl e)
      with True Suc.prems show ?thesis by simp
    next
      case (Inr root)
      show ?thesis
      proof (cases "compile_loop h (resolve h (replace_backslash p))
                      (findall root (ns_prefix root @ ''Compile'')) []")
        case (Inl e)
        with Suc.prems show ?thesis
          unfolding parse_proj_Suc [OF True Inr] by simp
      next
        case cfs: (Inr cfs)
        from Suc.prems obtain y where y: "resolve_children (parse_proj fuel h)
            (reference_paths h (resolve h (replace_backslash p))
               (findall root (ns_prefix root @ ''ProjectReference''))) v [] = Some y"
          unfolding parse_proj_Suc [OF True Inr] cfs by (auto split: option.splits)
        have "resolve_children (parse_proj (Suc fuel) h)
            (reference_paths h (resolve h (replace_backslash p))
               (findall root (ns_prefix root @ ''ProjectReference''))) v [] = Some y"
          using Suc.IH y by (rule resolve_children_rec_mono)
        with Suc.prems y show ?thesis
          unfolding parse_proj_Suc [OF True Inr] cfs by simp
      qed
    qed
  qed
qed

lemma parse_proj_fuel_add:
  "parse_proj fuel h p v = Some r \<Longrightarrow> parse_proj (fuel + k) h p v = Some r"
proof (induction k)
  case 0
  then show ?case by simp
next
  case (Suc k)
  from parse_proj_fuel_Suc [OF Suc.IH [OF Suc.prems]] show ?case by (simp del: parse_proj.simps)
qed

theorem parse_proj_returns:
  assumes "finite (reachable_keys h)"
  shows "\<exists>n r. \<forall>k. parse_proj (n + k) h p visited = Some r"
proof -
  from parse_proj_returns_bounded [OF assms, of visited "card (reachable_keys h - visited)"
      "card (reachable_keys h - visited) + 2" p]
  obtain r where "parse_proj (card (reachable_keys h - visited) + 2) h p visited = Some r"
    by auto
  then have "\<forall>k. parse_proj (card (reachable_keys h - visited) + 2 + k) h p visited = Some r"
    using parse_proj_fuel_add by blast
  then show ?thesis by blast
qed

lemma finite_replace_backslash_preimage: "finite {q. replace_backslash q \<in> set files}"
proof -
  have "{q. replace_backslash q \<in> set files}
        \<subseteq> (\<Union>f \<in> set files. {q. set q \<subseteq> UNIV \<and> length q = length f})"
    by (auto simp: replace_backslash_def)
  moreover have "finite (\<Union>f \<in> set files. {q :: string. set q \<subseteq> UNIV \<and> length q = length f})"
    by (intro finite_UN_I finite_lists_length_eq) simp_all
  ultimately show ?thesis by (rule finite_subset)
qed

lemma finite_reachable_keys_example:
  "finite (reachable_keys (example_host files dirs xmls texts))"
proof -
  have "reachable_keys (example_host files dirs xmls texts) \<subseteq> {q. replace_backslash q \<in> set files}"
    by (auto simp: reachable_keys_def example_host_def is_file_def split: if_splits)
  then show ?thesis using finite_replace_backslash_preimage by (rule finite_subset)
qed

lemma parse_proj_returns_cycle_host:
  "finite (reachable_keys cycle_host)
   \<and> (\<exists>n r. \<forall>k. parse_proj (n + k) cycle_host ''/r/A.csproj'' {} = Some r)"
proof -
  have f: "finite (reachable_keys cycle_host)"
    unfolding cycle_host_def by (rule finite_reachable_keys_example)
  from parse_proj_returns [OF f] f show ?thesis by blast
qed

subsection \<open>A path that is not a file\<close>



subsection \<open>Compile items\<close>

text \<open>
  Claim C3. A project whose \<^verbatim>\<open>Compile\<close> items include an existing file classified as
  \<^verbatim>\<open>CSProject\<close> or \<^verbatim>\<open>VBProject\<close> is not resolved: \<^verbatim>\<open>parse_proj\<close> raises \<^verbatim>\<open>TypeError\<close>,
  whatever else the project file holds, because \<^verbatim>\<open>Project\<close> is called with the keyword
  \<^verbatim>\<open>file_name\<close>. No child project is built from the item.
\<close>

theorem parse_proj_compile_project_item:
  assumes "is_file h (resolve h (replace_backslash p))"
    and "et_parse h (resolve h (replace_backslash p)) = Inr root"
    and "list_ex (is_project_item h (resolve h (replace_backslash p)))
           (findall root (ns_prefix root @ ''Compile''))"
  shows "parse_proj (Suc fuel) h p visited = Some (Inl TypeError)"
  using assms by (simp add: parse_proj_Suc compile_loop_project_item)

theorem parse_proj_compile_project_item_witness:
  "is_file compile_host (resolve compile_host (replace_backslash ''/r/App.csproj''))
   \<and> et_parse compile_host (resolve compile_host (replace_backslash ''/r/App.csproj''))
       = Inr (project_xml [] [''Program.cs'', ''Other.csproj''] [])
   \<and> list_ex (is_project_item compile_host (resolve compile_host (replace_backslash ''/r/App.csproj'')))
        (findall (project_xml [] [''Program.cs'', ''Other.csproj''] [])
           (ns_prefix (project_xml [] [''Program.cs'', ''Other.csproj''] []) @ ''Compile''))
   \<and> parse_proj (Suc 0) compile_host ''/r/App.csproj'' {} = Some (Inl TypeError)"
proof -
  have a: "is_file compile_host (resolve compile_host (replace_backslash ''/r/App.csproj''))"
    by code_simp
  have b: "et_parse compile_host (resolve compile_host (replace_backslash ''/r/App.csproj''))
           = Inr (project_xml [] [''Program.cs'', ''Other.csproj''] [])"
    by code_simp
  have c: "list_ex (is_project_item compile_host
                     (resolve compile_host (replace_backslash ''/r/App.csproj'')))
        (findall (project_xml [] [''Program.cs'', ''Other.csproj''] [])
           (ns_prefix (project_xml [] [''Program.cs'', ''Other.csproj''] []) @ ''Compile''))"
    by code_simp
  from parse_proj_compile_project_item [OF a b c, of 0 "{}"] a b c show ?thesis by blast
qed



subsection \<open>The SDK fallback\<close>

text \<open>
  Claim C6. For a project whose root carries \<^verbatim>\<open>Sdk="Microsoft.NET.Sdk"\<close> and whose compile
  items yield no code file, \<^verbatim>\<open>parse_proj\<close> returns (when its references resolve) a project
  whose \<^verbatim>\<open>code_files\<close> are the \<^verbatim>\<open>*.cs\<close> paths and then the \<^verbatim>\<open>*.vb\<close> paths found beneath the
  project folder, each resolved and classified by \<^verbatim>\<open>_detect_language\<close>.
\<close>

theorem parse_proj_sdk_fallback:
  assumes "is_file h (resolve h (replace_backslash p))"
    and "et_parse h (resolve h (replace_backslash p)) = Inr root"
    and "map_of (attrib root) ''Sdk'' = Some ''Microsoft.NET.Sdk''"
    and "compile_loop h (resolve h (replace_backslash p))
           (findall root (ns_prefix root @ ''Compile'')) [] = Inr []"
    and "reference_loop (parse_proj fuel h) h (resolve h (replace_backslash p))
           (findall root (ns_prefix root @ ''ProjectReference'')) visited []
         = Some (Inr (cps, visited'))"
  shows "parse_proj (Suc fuel) h p visited
         = Some (Inr ((Project
               (resolve h (parent (resolve h (replace_backslash p))) @ ''/''
                  @ basename (resolve h (replace_backslash p)))
               (resolve h (parent (resolve h (replace_backslash p))))
               (stem (resolve h (replace_backslash p)))
               (map (\<lambda>q. \<lparr>file_name = basename q, full_path = q,
                           language = detect_language (basename q)\<rparr>)
                  (map (resolve h) (rglob h (parent (resolve h (replace_backslash p))) ''.cs'')
                   @ map (resolve h) (rglob h (parent (resolve h (replace_backslash p))) ''.vb'')))
               cps, cps), visited'))"
  using assms
  by (simp add: parse_proj_Suc reference_loop_paths [symmetric] build_project_def
      project_type_of_def get_sdk_files_def Let_def)

theorem parse_proj_sdk_fallback_witness:
  "is_file sdk_host (resolve sdk_host (replace_backslash ''/r/App/App.csproj''))
   \<and> et_parse sdk_host (resolve sdk_host (replace_backslash ''/r/App/App.csproj''))
       = Inr (project_xml [(''Sdk'', ''Microsoft.NET.Sdk'')] [] [])
   \<and> map_of (attrib (project_xml [(''Sdk'', ''Microsoft.NET.Sdk'')] [] [])) ''Sdk''
       = Some ''Microsoft.NET.Sdk''
   \<and> compile_loop sdk_host (resolve sdk_host (replace_backslash ''/r/App/App.csproj''))
         (findall (project_xml [(''Sdk'', ''Microsoft.NET.Sdk'')] [] [])
            (ns_prefix (project_xml [(''Sdk'', ''Microsoft.NET.Sdk'')] [] []) @ ''Compile'')) []
       = Inr []
   \<and> reference_loop (parse_proj 0 sdk_host) sdk_host
         (resolve sdk_host (replace_backslash ''/r/App/App.csproj''))
         (findall (project_xml [(''Sdk'', ''Microsoft.NET.Sdk'')] [] [])
            (ns_prefix (project_xml [(''Sdk'', ''Microsoft.NET.Sdk'')] [] []) @ ''ProjectReference''))
         {} []
       = Some (Inr ([], {}))
   \<and> parse_proj (Suc 0) sdk_host ''/r/App/App.csproj'' {}
       = Some (Inr ((Project ''/r/App/App.csproj'' ''/r/App'' ''App''
                       [\<lparr>file_name = ''Program.cs'', full_path = ''/r/App/Program.cs'',
                         language = CSharp\<rparr>,
                        \<lparr>file_name = ''Util.cs'', full_path = ''/r/App/Helpers/Util.cs'',
                         language = CSharp\<rparr>] [], []), {}))"
proof -
  have a: "is_file sdk_host (resolve sdk_host (replace_backslash ''/r/App/App.csproj''))"
    by code_simp
  have b: "et_parse sdk_host (resolve sdk_host (replace_backslash ''/r/App/App.csproj''))
           = Inr (project_xml [(''Sdk'', ''Microsoft.NET.Sdk'')] [] [])"
    by code_simp
  have c: "map_of (attrib (project_xml [(''Sdk'', ''Microsoft.NET.Sdk'')] [] [])) ''Sdk''
           = Some ''Microsoft.NET.Sdk''"
    by code_simp
  have d: "compile_loop sdk_host (resolve sdk_host (replace_backslash ''/r/App/App.csproj''))
         (findall (project_xml [(''Sdk'', ''Microsoft.NET.Sdk'')] [] [])
            (ns_prefix (project_xml [(''Sdk'', ''Microsoft.NET.Sdk'')] [] []) @ ''Compile'')) []
       = Inr []"
    by code_simp
  have e: "reference_loop (parse_proj 0 sdk_host) sdk_host
         (resolve sdk_host (replace_backslash ''/r/App/App.csproj''))
         (findall (project_xml [(''Sdk'', ''Microsoft.NET.Sdk'')] [] [])
            (ns_prefix (project_xml [(''Sdk'', ''Microsoft.NET.Sdk'')] [] []) @ ''ProjectReference''))
         {} []
       = Some (Inr ([], {}))"
    by code_simp
  have k: "Project
               (resolve sdk_host (parent (resolve sdk_host (replace_backslash ''/r/App/App.csproj''))) @ ''/''
                  @ basename (resolve sdk_host (replace_backslash ''/r/App/App.csproj'')))
               (resolve sdk_host (parent (resolve sdk_host (replace_backslash ''/r/App/App.csproj''))))
               (stem (resolve sdk_host (replace_backslash ''/r/App/App.csproj'')))
               (map (\<lambda>q. \<lparr>file_name = basename q, full_path = q,
                           language = detect_language (basename q)\<rparr>)
                  (map (resolve sdk_host)
                     (rglob sdk_host (parent (resolve sdk_host (replace_backslash ''/r/App/App.csproj''))) ''.cs'')
                   @ map (resolve sdk_host)
                     (rglob sdk_host (parent (resolve sdk_host (replace_backslash ''/r/App/App.csproj''))) ''.vb'')))
               []
           = Project ''/r/App/App.csproj'' ''/r/App'' ''App''
                       [\<lparr>file_name = ''Program.cs'', full_path = ''/r/App/Program.cs'',
                         language = CSharp\<rparr>,
                        \<lparr>file_name = ''Util.cs'', full_path = ''/r/App/Helpers/Util.cs'',
                         language = CSharp\<rparr>] []"
    by code_simp
  from parse_proj_sdk_fallback [OF a b c d e] a b c d e show ?thesis
    unfolding k by blast
qed

subsection \<open>Cycles and shared references\<close>




text \<open>
  Claim C1, as the code has it. A path stays in \<^verbatim>\<open>visited\<close> after the call that added it
  has returned. So when R references B and C, the references of both resolve to the same
  path of D, and the resolution of D under B succeeds without visiting C, D is resolved
  under B only: C is returned without children.
\<close>

theorem parse_proj_diamond:
  assumes "resolves_as h r rootR cfsR [b, c]"
    and "resolves_as h b rootB cfsB [d]"
    and "resolves_as h c rootC cfsC [d]"
    and "d \<noteq> b"
    and "parse_proj fuel h d {b, d} = Some (Inr ((pd, gd), v))"
    and "c \<notin> v"
  shows "parse_proj (Suc (Suc fuel)) h r {}
         = Some (Inr ((project_at h r rootR cfsR
                         [project_at h b rootB cfsB
                            [extend_child_projects pd gd, extend_child_projects pd gd],
                          project_at h c rootC cfsC []],
                       [project_at h b rootB cfsB
                            [extend_child_projects pd gd, extend_child_projects pd gd],
                        project_at h c rootC cfsC []]),
                      insert c v))"
proof -
  from parse_proj_visited_mono [OF assms(5)] have dv: "d \<in> v" and bv: "b \<in> v" by auto
  have pb: "parse_proj (Suc fuel) h b {b}
              = Some (Inr ((project_at h b rootB cfsB [extend_child_projects pd gd],
                            [extend_child_projects pd gd]), v))"
    using assms(4,5)
    by (simp add: parse_proj_resolves_as [OF assms(2)] insert_commute del: parse_proj.simps)
  have pc: "parse_proj (Suc fuel) h c (insert c v)
              = Some (Inr ((project_at h c rootC cfsC [], []), insert c v))"
    using dv by (simp add: parse_proj_resolves_as [OF assms(3)] del: parse_proj.simps)
  show ?thesis
    using pb pc assms(6)
    by (simp add: parse_proj_resolves_as [OF assms(1)] extend_project_at del: parse_proj.simps)
qed

theorem parse_proj_diamond_witness:
  "resolves_as diamond_host ''/r/R.csproj'' (project_xml [] [] [''B.csproj'', ''C.csproj'']) []
     [''/r/B.csproj'', ''/r/C.csproj'']
   \<and> resolves_as diamond_host ''/r/B.csproj'' (project_xml [] [] [''D.csproj'']) [] [''/r/D.csproj'']
   \<and> resolves_as diamond_host ''/r/C.csproj'' (project_xml [] [] [''D.csproj'']) [] [''/r/D.csproj'']
   \<and> ''/r/D.csproj'' \<noteq> ''/r/B.csproj''
   \<and> parse_proj (Suc 0) diamond_host ''/r/D.csproj'' {''/r/B.csproj'', ''/r/D.csproj''}
       = Some (Inr ((Project ''/r/D.csproj'' ''/r'' ''D'' [] [], []),
                    {''/r/B.csproj'', ''/r/D.csproj''}))
   \<and> ''/r/C.csproj'' \<notin> {''/r/B.csproj'', ''/r/D.csproj''}
   \<and> map_option (map_sum id
           (\<lambda>((prj, kids), v). map (\<lambda>q. (name q, map name (child_projects q))) (child_projects prj)))
         (parse_proj (Suc (Suc (Suc 0))) diamond_host ''/r/R.csproj'' {})
       = Some (Inr [(''B'', [''D'', ''D'']), (''C'', [])])"
proof -
  have r: "resolves_as diamond_host ''/r/R.csproj'' (project_xml [] [] [''B.csproj'', ''C.csproj''])
             [] [''/r/B.csproj'', ''/r/C.csproj'']"
    by code_simp
  have b: "resolves_as diamond_host ''/r/B.csproj'' (project_xml [] [] [''D.csproj'']) []
             [''/r/D.csproj'']"
    by code_simp
  have c: "resolves_as diamond_host ''/r/C.csproj'' (project_xml [] [] [''D.csproj'']) []
             [''/r/D.csproj'']"
    by code_simp
  have n: "''/r/D.csproj'' \<noteq> ''/r/B.csproj''" by simp
  have d: "parse_proj (Suc 0) diamond_host ''/r/D.csproj'' {''/r/B.csproj'', ''/r/D.csproj''}
           = Some (Inr ((Project ''/r/D.csproj'' ''/r'' ''D'' [] [], []),
                        {''/r/B.csproj'', ''/r/D.csproj''}))"
    by code_simp
  have m: "''/r/C.csproj'' \<notin> {''/r/B.csproj'', ''/r/D.csproj''}" by simp
  have e: "project_at diamond_host ''/r/B.csproj'' (project_xml [] [] [''D.csproj'']) [] cps
           = Project ''/r/B.csproj'' ''/r'' ''B'' [] cps"
       "project_at diamond_host ''/r/C.csproj'' (project_xml [] [] [''D.csproj'']) [] cps
           = Project ''/r/C.csproj'' ''/r'' ''C'' [] cps" for cps
    by (simp_all add: project_at_def build_project_def project_type_of_def project_xml_def
        diamond_host_def example_host_def replace_backslash_def parent_def basename_def stem_def rfind_def Let_def)
  from parse_proj_diamond [OF r b c n d m] r b c n d m show ?thesis
    by (simp add: e child_projects_project_at del: parse_proj.simps)
qed

text \<open>
  The diamond of \<^verbatim>\<open>diamond_host\<close>: the tree returned for R holds D under B and not under C.
\<close>

theorem parse_proj_diamond_counterexample:
  "parse_proj (Suc (Suc (Suc 0))) diamond_host ''/r/R.csproj'' {}
   = Some (Inr ((Project ''/r/R.csproj'' ''/r'' ''R'' []
                   [Project ''/r/B.csproj'' ''/r'' ''B'' []
                      [Project ''/r/D.csproj'' ''/r'' ''D'' [] [],
                       Project ''/r/D.csproj'' ''/r'' ''D'' [] []],
                    Project ''/r/C.csproj'' ''/r'' ''C'' [] []],
                 [Project ''/r/B.csproj'' ''/r'' ''B'' []
                      [Project ''/r/D.csproj'' ''/r'' ''D'' [] [],
                       Project ''/r/D.csproj'' ''/r'' ''D'' [] []],
                  Project ''/r/C.csproj'' ''/r'' ''C'' [] []]),
                {''/r/B.csproj'', ''/r/D.csproj'', ''/r/C.csproj''}))"
  by code_simp

text \<open>
  Where the two references to D resolve to different paths, as on \<^verbatim>\<open>posix_diamond_host\<close>, D
  is resolved under B and under C.
\<close>

lemma parse_proj_diamond_backslash_example:
  "parse_proj (Suc (Suc (Suc 0))) posix_diamond_host ''/r/R.csproj'' {}
   = Some (Inr ((Project ''/r/R.csproj'' ''/r'' ''R'' []
                   [Project ''/r/B/B.csproj'' ''/r/B'' ''B'' []
                      [Project ''/r/D/D.csproj'' ''/r/D'' ''D'' [] [],
                       Project ''/r/D/D.csproj'' ''/r/D'' ''D'' [] []],
                    Project ''/r/C/C.csproj'' ''/r/C'' ''C'' []
                      [Project ''/r/D/D.csproj'' ''/r/D'' ''D'' [] [],
                       Project ''/r/D/D.csproj'' ''/r/D'' ''D'' [] []]],
                 [Project ''/r/B/B.csproj'' ''/r/B'' ''B'' []
                      [Project ''/r/D/D.csproj'' ''/r/D'' ''D'' [] [],
                       Project ''/r/D/D.csproj'' ''/r/D'' ''D'' [] []],
                  Project ''/r/C/C.csproj'' ''/r/C'' ''C'' []
                      [Project ''/r/D/D.csproj'' ''/r/D'' ''D'' [] [],
                       Project ''/r/D/D.csproj'' ''/r/D'' ''D'' [] []]]),
                {''/r/B/B.csproj'', ''/r/B/'' @ backslash_include, ''/r/C/C.csproj'',
                 ''/r/C/'' @ backslash_include}))"
  by code_simp

section \<open>The solution resolver\<close>

lemma startswith_iff: "startswith s p \<longleftrightarrow> (\<exists>ys. s = p @ ys)"
proof
  assume "startswith s p"
  then have "s = p @ drop (length p) s"
    unfolding startswith_def by (metis append_take_drop_id)
  then show "\<exists>ys. s = p @ ys" ..
next
  assume "\<exists>ys. s = p @ ys"
  then show "startswith s p" by (auto simp: startswith_def)
qed

lemma contains_iff: "contains p s \<longleftrightarrow> (\<exists>xs ys. s = xs @ p @ ys)"
proof (induction s)
  case Nil
  show ?case by auto
next
  case (Cons c s)
  show ?case
  proof
    assume "contains p (c # s)"
    then consider "startswith (c # s) p" | "contains p s" by auto
    then show "\<exists>xs ys. c # s = xs @ p @ ys"
    proof cases
      case 1
      then obtain ys where "c # s = p @ ys" by (auto simp: startswith_iff)
      then have "c # s = [] @ p @ ys" by simp
      then show ?thesis by blast
    next
      case 2
      with Cons.IH obtain xs ys where "s = xs @ p @ ys" by blast
      then have "c # s = (c # xs) @ p @ ys" by simp
      then show ?thesis by blast
    qed
  next
    assume "\<exists>xs ys. c # s = xs @ p @ ys"
    then obtain xs ys where e: "c # s = xs @ p @ ys" by blast
    show "contains p (c # s)"
    proof (cases xs)
      case Nil
      with e have "startswith (c # s) p" by (auto simp: startswith_iff)
      then show ?thesis by simp
    next
      case (Cons x xs')
      with e have "s = xs' @ p @ ys" by simp
      with Cons.IH have "contains p s" by blast
      then show ?thesis by simp
    qed
  qed
qed

lemma endswith_contains: "endswith s p \<Longrightarrow> contains p s"
proof -
  assume "endswith s p"
  then have "s = take (length s - length p) s @ p @ []"
    unfolding endswith_def by (metis append_Nil2 append_take_drop_id)
  then show ?thesis unfolding contains_iff by blast
qed

lemma contains_lower: "contains p s \<Longrightarrow> contains (lower p) (lower s)"
  unfolding contains_iff lower_def by (metis map_append)

lemma lower_vbproj: "lower ''.vbproj'' = ''.vbproj''"
  by code_simp

text \<open>A no-break space around the equals sign is white space to the pattern.\<close>

lemma project_line_match_no_break_space:
  "project_line_match
     (''Project('' @ [CHR 0x22] @ ''{FAE04EC0-301F-11D3-BF4B-00C04F79EFBC}'' @ [CHR 0x22] @ '')''
      @ [CHR 0xA0] @ ''='' @ [CHR 0x85] @ [CHR 0x22] @ ''App'' @ [CHR 0x22] @ '', ''
      @ [CHR 0x22] @ ''App.csproj'' @ [CHR 0x22] @ '', ''
      @ [CHR 0x22] @ ''{8F3A1C2E-0000-4000-8000-000000000001}'' @ [CHR 0x22])
   = Some (''App'', ''App.csproj'')"
  by code_simp

lemma supported_project_ref_examples:
  "map supported_project_ref
     [''App.csproj'', ''App.CSPROJ'', ''Lib.vbproj'', ''Lib.VBPROJ'', ''App.csproj.user'', ''Docs'']
   = [True, True, True, False, True, False]"
  by code_simp

text \<open>
  Claim C4, as the code has it. An entry is handed to \<^verbatim>\<open>_parse_project_file\<close> when its path
  contains \<^verbatim>\<open>.csproj\<close> in any letter case (so also when it ends in it) or contains
  \<^verbatim>\<open>.vbproj\<close> in lower case; an entry whose path contains neither \<^verbatim>\<open>.csproj\<close> nor
  \<^verbatim>\<open>.vbproj\<close> in any letter case is passed over.
\<close>

theorem solution_loop_forwarding:
  assumes "project_line_match line = Some (nm, m)"
  shows "(contains ''.csproj'' (lower (replace_backslash m))
            \<or> endswith (lower (replace_backslash m)) ''.csproj''
            \<or> contains ''.vbproj'' (replace_backslash m)
          \<longrightarrow> solution_loop fuel h sln (Line line fh) ps
              = (case parse_project_file fuel h
                        (resolve h (joinpath (parent sln) (replace_backslash m))) of
                   None \<Rightarrow> None
                 | Some (Inl e) \<Rightarrow> Some (ps, Some e)
                 | Some (Inr project) \<Rightarrow> solution_loop fuel h sln fh (ps @ [project])))
       \<and> (\<not> contains ''.csproj'' (lower (replace_backslash m))
            \<and> \<not> contains ''.vbproj'' (lower (replace_backslash m))
          \<longrightarrow> solution_loop fuel h sln (Line line fh) ps = solution_loop fuel h sln fh ps)"
proof (intro conjI impI)
  assume "contains ''.csproj'' (lower (replace_backslash m))
            \<or> endswith (lower (replace_backslash m)) ''.csproj''
            \<or> contains ''.vbproj'' (replace_backslash m)"
  then have "supported_project_ref (replace_backslash m)"
    unfolding supported_project_ref_def using endswith_contains by blast
  with assms show "solution_loop fuel h sln (Line line fh) ps
              = (case parse_project_file fuel h
                        (resolve h (joinpath (parent sln) (replace_backslash m))) of
                   None \<Rightarrow> None
                 | Some (Inl e) \<Rightarrow> Some (ps, Some e)
                 | Some (Inr project) \<Rightarrow> solution_loop fuel h sln fh (ps @ [project]))"
    by (simp add: Let_def)
next
  assume a: "\<not> contains ''.csproj'' (lower (replace_backslash m))
            \<and> \<not> contains ''.vbproj'' (lower (replace_backslash m))"
  have "\<not> contains ''.vbproj'' (replace_backslash m)"
    using a contains_lower [of "''.vbproj''" "replace_backslash m"] lower_vbproj by auto
  with a have "\<not> supported_project_ref (replace_backslash m)"
    unfolding supported_project_ref_def by blast
  with assms show "solution_loop fuel h sln (Line line fh) ps = solution_loop fuel h sln fh ps"
    by (simp add: Let_def)
qed

theorem solution_loop_forwarding_witness:
  "project_line_match (project_line ''Lib'' windows_path) = Some (''Lib'', windows_path)
   \<and> contains ''.csproj'' (lower (replace_backslash windows_path))
   \<and> solution_loop (Suc 0) solution_host ''/r/Ext.sln''
        (Line (project_line ''Lib'' windows_path) Eof) []
       = Some ([Project ''/r/src/Lib.CSProj'' ''/r/src'' ''Lib'' [] []], None)
   \<and> project_line_match (project_line ''Docs'' ''Docs'') = Some (''Docs'', ''Docs'')
   \<and> \<not> contains ''.csproj'' (lower (replace_backslash ''Docs''))
   \<and> \<not> contains ''.vbproj'' (lower (replace_backslash ''Docs''))
   \<and> solution_loop (Suc 0) solution_host ''/r/Ext.sln'' (Line (project_line ''Docs'' ''Docs'') Eof) []
       = Some ([], None)"
proof -
  have a: "project_line_match (project_line ''Lib'' windows_path) = Some (''Lib'', windows_path)"
    by code_simp
  have b: "contains ''.csproj'' (lower (replace_backslash windows_path))" by code_simp
  have c: "(case parse_project_file (Suc 0) solution_host
                   (resolve solution_host
                      (joinpath (parent ''/r/Ext.sln'') (replace_backslash windows_path))) of
              None \<Rightarrow> None
            | Some (Inl e) \<Rightarrow> Some ([], Some e)
            | Some (Inr project) \<Rightarrow>
                solution_loop (Suc 0) solution_host ''/r/Ext.sln'' Eof ([] @ [project]))
           = Some ([Project ''/r/src/Lib.CSProj'' ''/r/src'' ''Lib'' [] []], None)"
    by code_simp
  have d: "project_line_match (project_line ''Docs'' ''Docs'') = Some (''Docs'', ''Docs'')"
    by code_simp
  have e: "\<not> contains ''.csproj'' (lower (replace_backslash ''Docs''))"
    "\<not> contains ''.vbproj'' (lower (replace_backslash ''Docs''))"
    by code_simp+
  have f: "solution_loop (Suc 0) solution_host ''/r/Ext.sln'' Eof [] = Some ([], None)"
    by simp
  from solution_loop_forwarding [OF a, of "Suc 0" solution_host "''/r/Ext.sln''" Eof "[]"]
    solution_loop_forwarding [OF d, of "Suc 0" solution_host "''/r/Ext.sln''" Eof "[]"]
    a b c d e f
  show ?thesis by presburger
qed

text \<open>
  The entry \<^verbatim>\<open>App.csproj.user\<close> of \<^verbatim>\<open>Ext.sln\<close> does not end in a project extension, and
  is resolved as a project all the same.
\<close>

theorem parse_solution_file_forwarding_counterexample:
  "project_line_match (project_line ''App'' ''App.csproj.user'') = Some (''App'', ''App.csproj.user'')
   \<and> \<not> endswith (lower ''App.csproj.user'') ''.csproj''
   \<and> \<not> endswith (lower ''App.csproj.user'') ''.vbproj''
   \<and> open_utf8 solution_host ''/r/Ext.sln'' = Inr (Line (project_line ''App'' ''App.csproj.user'') Eof)
   \<and> parse_solution_file (Suc 0) solution_host ''/r/Ext.sln''
       = Some (Inr \<lparr>full_path = ''/r'', solution_name = ''Ext.sln'',
                    projects = [Project ''/r/App.csproj.user'' ''/r'' ''App.csproj'' [] []]\<rparr>)"
  by code_simp

lemma solution_loop_raises_before_project:
  "raises_before_project fh \<Longrightarrow>
   \<exists>e. solution_loop fuel h sln fh ps = Some (ps, Some e) \<and> is_os_or_decode_error e"
proof (induction fh)
  case Eof
  then show ?case by simp
next
  case (Raise e)
  then show ?case by simp
next
  case (Line line fh)
  then show ?case by (auto simp: Let_def split: option.splits)
qed

text \<open>What reading a solution file delivers bears on the solution resolver only.\<close>

lemma is_file_open_utf8 [simp]: "is_file (h\<lparr>open_utf8 := f\<rparr>) = is_file h"
  by (simp add: is_file_def fun_eq_iff)

lemma is_dir_open_utf8 [simp]: "is_dir (h\<lparr>open_utf8 := f\<rparr>) = is_dir h"
  by (simp add: is_dir_def fun_eq_iff)

lemma compile_loop_open_utf8 [simp]:
  "compile_loop (h\<lparr>open_utf8 := f\<rparr>) p items cfs = compile_loop h p items cfs"
  by (induction items arbitrary: cfs) (simp_all add: Let_def split: option.splits)

lemma reference_loop_open_utf8 [simp]:
  "reference_loop rec (h\<lparr>open_utf8 := f\<rparr>) p refs v cps = reference_loop rec h p refs v cps"
  by (induction refs arbitrary: v cps)
    (simp_all add: Let_def split: option.splits sum.splits prod.splits)

lemma build_project_open_utf8 [simp]:
  "build_project (h\<lparr>open_utf8 := f\<rparr>) p root cfs cps = build_project h p root cfs cps"
  by (simp add: build_project_def get_sdk_files_def rglob_def Let_def)

lemma parse_proj_open_utf8 [simp]:
  "parse_proj fuel (h\<lparr>open_utf8 := f\<rparr>) = parse_proj fuel h"
proof (induction fuel)
  case 0
  show ?case by (simp add: fun_eq_iff)
next
  case (Suc fuel)
  show ?case
  proof (intro ext)
    fix p v
    show "parse_proj (Suc fuel) (h\<lparr>open_utf8 := f\<rparr>) p v = parse_proj (Suc fuel) h p v"
      using Suc by (simp add: Let_def split: sum.splits option.splits prod.splits)
  qed
qed

lemma process_child_project_open_utf8 [simp]:
  "process_child_project (h\<lparr>open_utf8 := f\<rparr>) prj = process_child_project h prj"
  by (cases prj) simp

lemma parse_project_file_open_utf8 [simp]:
  "parse_project_file fuel (h\<lparr>open_utf8 := f\<rparr>) p = parse_project_file fuel h p"
  by (simp add: parse_project_file_def split: option.splits sum.splits prod.splits
      del: parse_proj.simps)

lemma solution_after_until_failure:
  assumes "\<not> debug_enabled h"
  shows "map_option (\<lambda>(ps, exc). solution_after h (sol ps) exc)
           (solution_loop fuel h sln (until_failure fh) ps0)
         = map_option (\<lambda>(ps, exc). solution_after h (sol ps) exc)
             (solution_loop fuel h sln fh ps0)"
proof (induction fh arbitrary: ps0)
  case Eof
  show ?case by simp
next
  case (Raise e)
  from assms show ?case by (simp add: solution_after_def log_debug_file_def)
next
  case (Line line fh)
  then show ?case by (simp add: Let_def split: option.splits sum.splits)
qed

lemma solution_loop_open_utf8 [simp]:
  "solution_loop fuel (h\<lparr>open_utf8 := f\<rparr>) sln fh ps = solution_loop fuel h sln fh ps"
  by (induction fh arbitrary: ps) (simp_all add: Let_def split: option.splits sum.splits)

lemma solution_after_open_utf8 [simp]:
  "solution_after (h\<lparr>open_utf8 := f\<rparr>) sol exc = solution_after h sol exc"
  by (simp add: solution_after_def log_debug_file_def split: option.splits)

lemma parse_solution_file_Inr:
  "open_utf8 h sln = Inr fh \<Longrightarrow>
   parse_solution_file fuel h sln
   = map_option (\<lambda>(ps, exc). solution_after h
        \<lparr>full_path = resolve h (parent sln), solution_name = basename sln, projects = ps\<rparr> exc)
       (solution_loop fuel h sln fh [])"
  by (simp add: parse_solution_file_def split: option.splits)

text \<open>
  Claim C7, as the code has it. With DEBUG logging off, a solution file that cannot be
  opened, or whose reading fails before a supported project line, gives the solution with
  its folder, its file name and no projects; nothing is raised. In general a failure of
  reading is not passed on: the function returns what it returns for the file that ends
  where the failure occurs, so the projects resolved from the lines read before the
  failure stay in the solution.
\<close>

theorem parse_solution_file_unreadable:
  assumes "\<not> debug_enabled h"
  shows "(unreadable h sln \<longrightarrow>
            parse_solution_file fuel h sln
            = Some (Inr \<lparr>full_path = resolve h (parent sln), solution_name = basename sln,
                         projects = []\<rparr>))
       \<and> (open_utf8 h sln = Inr fh \<longrightarrow>
            parse_solution_file fuel h sln
            = parse_solution_file fuel
                (h\<lparr>open_utf8 := (open_utf8 h)(sln := Inr (until_failure fh))\<rparr>) sln)"
proof (intro conjI impI)
  assume u: "unreadable h sln"
  show "parse_solution_file fuel h sln
         = Some (Inr \<lparr>full_path = resolve h (parent sln), solution_name = basename sln,
                      projects = []\<rparr>)"
  proof (cases "open_utf8 h sln")
    case (Inl e)
    with assms u show ?thesis
      by (simp add: parse_solution_file_def unreadable_def solution_after_def log_debug_file_def)
  next
    case (Inr fh)
    with u have "raises_before_project fh" by (simp add: unreadable_def)
    from solution_loop_raises_before_project [OF this, of fuel h sln "[]"]
    obtain e where "solution_loop fuel h sln fh [] = Some ([], Some e)" "is_os_or_decode_error e"
      by blast
    with Inr assms show ?thesis
      by (simp add: parse_solution_file_def solution_after_def log_debug_file_def)
  qed
next
  assume o: "open_utf8 h sln = Inr fh"
  have o': "open_utf8 (h\<lparr>open_utf8 := (open_utf8 h)(sln := Inr (until_failure fh))\<rparr>) sln
            = Inr (until_failure fh)"
    by simp
  show "parse_solution_file fuel h sln
         = parse_solution_file fuel
             (h\<lparr>open_utf8 := (open_utf8 h)(sln := Inr (until_failure fh))\<rparr>) sln"
    unfolding parse_solution_file_Inr [OF o] parse_solution_file_Inr [OF o']
    using solution_after_until_failure [OF assms,
        of "\<lambda>ps. \<lparr>full_path = resolve h (parent sln), solution_name = basename sln,
                    projects = ps\<rparr>" fuel sln fh "[]"]
    by (simp add: split_def)
qed

theorem parse_solution_file_unreadable_witness:
  "\<not> debug_enabled solution_host \<and> unreadable solution_host ''/r/Bad.sln''
   \<and> unreadable solution_host ''/r/Missing.sln''
   \<and> parse_solution_file (Suc 0) solution_host ''/r/Bad.sln''
       = Some (Inr \<lparr>full_path = ''/r'', solution_name = ''Bad.sln'', projects = []\<rparr>)
   \<and> parse_solution_file (Suc 0) solution_host ''/r/Missing.sln''
       = Some (Inr \<lparr>full_path = ''/r'', solution_name = ''Missing.sln'', projects = []\<rparr>)
   \<and> open_utf8 solution_host ''/r/Late.sln''
       = Inr (Line (project_line ''App'' ''App.csproj'') (Raise UnicodeDecodeError))
   \<and> parse_solution_file (Suc 0) solution_host ''/r/Late.sln''
       = parse_solution_file (Suc 0)
           (solution_host\<lparr>open_utf8 := (open_utf8 solution_host)
              (''/r/Late.sln'' := Inr (until_failure
                 (Line (project_line ''App'' ''App.csproj'') (Raise UnicodeDecodeError))))\<rparr>)
           ''/r/Late.sln''
   \<and> until_failure (Line (project_line ''App'' ''App.csproj'') (Raise UnicodeDecodeError))
       = Line (project_line ''App'' ''App.csproj'') Eof"
proof -
  have a: "\<not> debug_enabled solution_host" by code_simp
  have b: "unreadable solution_host ''/r/Bad.sln''" by code_simp
  have c: "unreadable solution_host ''/r/Missing.sln''" by code_simp
  have d: "resolve solution_host (parent ''/r/Bad.sln'') = ''/r''" "basename ''/r/Bad.sln'' = ''Bad.sln''"
    "resolve solution_host (parent ''/r/Missing.sln'') = ''/r''"
    "basename ''/r/Missing.sln'' = ''Missing.sln''"
    by code_simp+
  have e: "open_utf8 solution_host ''/r/Late.sln''
       = Inr (Line (project_line ''App'' ''App.csproj'') (Raise UnicodeDecodeError))"
    by code_simp
  have f: "until_failure (Line (project_line ''App'' ''App.csproj'') (Raise UnicodeDecodeError))
       = Line (project_line ''App'' ''App.csproj'') Eof"
    by (simp add: is_os_or_decode_error_def)
  from parse_solution_file_unreadable [OF a, of "''/r/Bad.sln''" "Suc 0"]
    parse_solution_file_unreadable [OF a, of "''/r/Missing.sln''" "Suc 0"]
    parse_solution_file_unreadable [OF a, of "''/r/Late.sln''" "Suc 0"
      "Line (project_line ''App'' ''App.csproj'') (Raise UnicodeDecodeError)"]
    a b c e f show ?thesis
    unfolding d by blast
qed

text \<open>
  Reading \<^verbatim>\<open>Late.sln\<close> raises \<^verbatim>\<open>UnicodeDecodeError\<close> after a project line was delivered: the
  project resolved from that line stays in the solution returned.
\<close>

theorem parse_solution_file_late_failure_counterexample:
  "open_utf8 solution_host ''/r/Late.sln''
     = Inr (Line (project_line ''App'' ''App.csproj'') (Raise UnicodeDecodeError))
   \<and> parse_solution_file (Suc 0) solution_host ''/r/Late.sln''
       = Some (Inr \<lparr>full_path = ''/r'', solution_name = ''Late.sln'',
                    projects = [Project ''/r/App.csproj'' ''/r'' ''App'' [] []]\<rparr>)"
  by code_simp

section \<open>The discovery driver\<close>

text \<open>
  Claim C10. When the start path resolves to an existing file, \<^verbatim>\<open>discover_solution_set\<close>
  returns the solution set of that path with no solutions: \<^verbatim>\<open>rglob\<close> yields nothing for a
  path that is not a directory.
\<close>

theorem discover_solution_set_file_root:
  assumes "is_file h (resolve h p)"
  shows "discover_solution_set fuel h p = Some (Inr \<lparr>start_path = resolve h p, solutions = []\<rparr>)"
  using assms by (simp add: discover_solution_set_def rglob_def is_file_def is_dir_def)

theorem discover_solution_set_file_root_witness:
  "is_file solution_host (resolve solution_host ''/r/Ext.sln'')
   \<and> discover_solution_set (Suc (Suc 0)) solution_host ''/r/Ext.sln''
       = Some (Inr \<lparr>start_path = ''/r/Ext.sln'', solutions = []\<rparr>)"
proof -
  have a: "is_file solution_host (resolve solution_host ''/r/Ext.sln'')" by code_simp
  have b: "resolve solution_host ''/r/Ext.sln'' = ''/r/Ext.sln''" by code_simp
  from discover_solution_set_file_root [OF a, of "Suc (Suc 0)"] a show ?thesis
    unfolding b by blast
qed

end
